theory Spec2Isabelle
  imports Complex_Main "HOL-Library.AList" "HOL-Library.Multiset"
    "HOL-Library.List_Lexorder" "HOL-Library.Product_Lexorder"
begin

section \<open>JavaScript values\<close>

text \<open>
  The project record is parsed from JSON and used without a schema, so it is modelled as
  an untyped JavaScript value. An object is the list of its own properties in insertion
  order; an array has its elements and, beside them, its own named properties. Numbers
  are the integers. Members inherited from a prototype (\<open>constructor\<close>, \<open>toString\<close>,
  ...) are not modelled, and a property written to an array is taken not to be an index
  or \<open>length\<close>: the file names the program uses as property names carry an image
  extension. An exception is a value of type \<open>error\<close>; a function that can throw
  returns \<open>error + 'a\<close>, or the state it has reached together with \<open>error option\<close>
  where it may have changed the state before throwing.
\<close>

datatype error = TypeError | ENOENT | EEXIST | ENOTDIR | EISDIR | EXDEV | EROFS

datatype jsval =
    JUndefined
  | JNull
  | JBool bool
  | JNum int
  | JStr string
  | JArr "jsval list" "(string \<times> jsval) list"
  | JObj "(string \<times> jsval) list"

fun truthy :: "jsval \<Rightarrow> bool" where
  "truthy JUndefined = False"
| "truthy JNull = False"
| "truthy (JBool b) = b"
| "truthy (JNum n) = (n \<noteq> 0)"
| "truthy (JStr s) = (s \<noteq> [])"
| "truthy (JArr vs ps) = True"
| "truthy (JObj ps) = True"

fun typeof_object :: "jsval \<Rightarrow> bool" where
  "typeof_object JNull = True"
| "typeof_object (JArr vs ps) = True"
| "typeof_object (JObj ps) = True"
| "typeof_object v = False"

fun isArray :: "jsval \<Rightarrow> bool" where
  "isArray (JArr vs ps) = True"
| "isArray v = False"

definition digit_char :: "nat \<Rightarrow> char" where
  "digit_char d = ''0123456789'' ! d"

fun dec :: "nat \<Rightarrow> string" where
  "dec n = (if n < 10 then [digit_char n] else dec (n div 10) @ [digit_char (n mod 10)])"

definition dec_int :: "int \<Rightarrow> string" where
  "dec_int i = (if i < 0 then CHR ''-'' # dec (nat (- i)) else dec (nat i))"

fun join_with :: "string \<Rightarrow> string list \<Rightarrow> string" where
  "join_with sep [] = []"
| "join_with sep [x] = x"
| "join_with sep (x # y # ys) = x @ sep @ join_with sep (y # ys)"

fun to_String :: "jsval \<Rightarrow> string" where
  "to_String JUndefined = ''undefined''"
| "to_String JNull = ''null''"
| "to_String (JBool b) = (if b then ''true'' else ''false'')"
| "to_String (JNum n) = dec_int n"
| "to_String (JStr s) = s"
| "to_String (JArr vs ps) =
     join_with '','' (map (\<lambda>v. if v = JUndefined \<or> v = JNull then [] else to_String v) vs)"
| "to_String (JObj ps) = ''[object Object]''"

definition array_entries :: "jsval list \<Rightarrow> (string \<times> jsval) list" where
  "array_entries vs = zip (map dec [0..<length vs]) vs"

definition string_entries :: "string \<Rightarrow> (string \<times> jsval) list" where
  "string_entries s = zip (map dec [0..<length s]) (map (\<lambda>c. JStr [c]) s)"

definition lookup_own :: "(string \<times> jsval) list \<Rightarrow> string \<Rightarrow> jsval" where
  "lookup_own ps k = (case map_of ps k of Some v \<Rightarrow> v | None \<Rightarrow> JUndefined)"

fun get_prop :: "jsval \<Rightarrow> string \<Rightarrow> error + jsval" where
  "get_prop JUndefined k = Inl TypeError"
| "get_prop JNull k = Inl TypeError"
| "get_prop (JBool b) k = Inr JUndefined"
| "get_prop (JNum n) k = Inr JUndefined"
| "get_prop (JStr s) k =
     Inr (if k = ''length'' then JNum (int (length s)) else lookup_own (string_entries s) k)"
| "get_prop (JArr vs ps) k =
     Inr (if k = ''length'' then JNum (int (length vs)) else lookup_own (array_entries vs @ ps) k)"
| "get_prop (JObj ps) k = Inr (lookup_own ps k)"

fun set_prop :: "jsval \<Rightarrow> string \<Rightarrow> jsval \<Rightarrow> error + jsval" where
  "set_prop (JObj ps) k v = Inr (JObj (AList.update k v ps))"
| "set_prop (JArr vs ps) k v = Inr (JArr vs (AList.update k v ps))"
| "set_prop x k v = Inl TypeError"

fun opt_chain :: "jsval \<Rightarrow> string \<Rightarrow> jsval" where
  "opt_chain JUndefined k = JUndefined"
| "opt_chain JNull k = JUndefined"
| "opt_chain x k = (case get_prop x k of Inr v \<Rightarrow> v | Inl e \<Rightarrow> JUndefined)"

section \<open>Strings\<close>

text \<open>
  A JavaScript string is a sequence of UTF-16 code units. A character of the model is a
  code unit below 256, that is a character of the Unicode blocks Basic Latin and Latin-1
  Supplement, and a string is a list of them; a string with a code unit from 256 on has
  no counterpart in the model. On these code units the white space of \<open>trim\<close> and of
  \<open>\s\<close> is tab, line feed, vertical tab, form feed, carriage return, space and the
  no-break space U+00A0. \<open>toLowerCase\<close> maps A to Z and the letters U+00C0 to U+00DE,
  without the multiplication sign U+00D7, to the code unit 32 above and leaves the others.
  \<open>toUpperCase\<close> maps a to z and U+00E0 to U+00FE, without the division sign U+00F7, to
  the code unit 32 below and the sharp s U+00DF to \<open>SS\<close>. The upper-case forms of the
  micro sign U+00B5 and of U+00FF are U+039C and U+0178, which are no code units below
  256: \<open>toUpperCase\<close> leaves these two, which changes nothing for the program, whose only
  use of the result is the comparison with the reserved device names.
\<close>

definition is_space :: "char \<Rightarrow> bool" where
  "is_space c = (c \<in> set [CHR 0x09, CHR 0x0A, CHR 0x0B, CHR 0x0C, CHR 0x0D, CHR 0x20, CHR 0xA0])"

definition trim :: "string \<Rightarrow> string" where
  "trim s = rev (dropWhile is_space (rev (dropWhile is_space s)))"

function collapse_ws :: "string \<Rightarrow> string" where
  "collapse_ws [] = []"
| "collapse_ws (c # cs) =
     (if is_space c then CHR 0x20 # collapse_ws (dropWhile is_space cs) else c # collapse_ws cs)"
  by pat_completeness auto
termination
  by (relation "measure length") (auto simp: less_Suc_eq_le length_dropWhile_le)

definition upper_letters :: string where
  "upper_letters = ''ABCDEFGHIJKLMNOPQRSTUVWXYZ'' @
     [CHR 0xC0, CHR 0xC1, CHR 0xC2, CHR 0xC3, CHR 0xC4, CHR 0xC5, CHR 0xC6, CHR 0xC7,
      CHR 0xC8, CHR 0xC9, CHR 0xCA, CHR 0xCB, CHR 0xCC, CHR 0xCD, CHR 0xCE, CHR 0xCF,
      CHR 0xD0, CHR 0xD1, CHR 0xD2, CHR 0xD3, CHR 0xD4, CHR 0xD5, CHR 0xD6, CHR 0xD8,
      CHR 0xD9, CHR 0xDA, CHR 0xDB, CHR 0xDC, CHR 0xDD, CHR 0xDE]"

definition lower_letters :: string where
  "lower_letters = ''abcdefghijklmnopqrstuvwxyz'' @
     [CHR 0xE0, CHR 0xE1, CHR 0xE2, CHR 0xE3, CHR 0xE4, CHR 0xE5, CHR 0xE6, CHR 0xE7,
      CHR 0xE8, CHR 0xE9, CHR 0xEA, CHR 0xEB, CHR 0xEC, CHR 0xED, CHR 0xEE, CHR 0xEF,
      CHR 0xF0, CHR 0xF1, CHR 0xF2, CHR 0xF3, CHR 0xF4, CHR 0xF5, CHR 0xF6, CHR 0xF8,
      CHR 0xF9, CHR 0xFA, CHR 0xFB, CHR 0xFC, CHR 0xFD, CHR 0xFE]"

definition lower_char :: "char \<Rightarrow> char" where
  "lower_char c = (case map_of (zip upper_letters lower_letters) c of Some l \<Rightarrow> l | None \<Rightarrow> c)"

definition toLowerCase :: "string \<Rightarrow> string" where
  "toLowerCase s = map lower_char s"

definition upper_char :: "char \<Rightarrow> string" where
  "upper_char c =
     (if c = CHR 0xDF then ''SS''
      else case map_of (zip lower_letters upper_letters) c of Some u \<Rightarrow> [u] | None \<Rightarrow> [c])"

definition toUpperCase :: "string \<Rightarrow> string" where
  "toUpperCase s = concat (map upper_char s)"

section \<open>Tags (projectManager.js)\<close>

definition bindE :: "error + 'a \<Rightarrow> ('a \<Rightarrow> error + 'b) \<Rightarrow> error + 'b" where
  "bindE m f = (case m of Inl e \<Rightarrow> Inl e | Inr x \<Rightarrow> f x)"

definition normalizeTag :: "jsval \<Rightarrow> string" where
  "normalizeTag tag = (case tag of JStr s \<Rightarrow> collapse_ws (trim s) | _ \<Rightarrow> [])"

definition equalTag :: "jsval \<Rightarrow> jsval \<Rightarrow> bool" where
  "equalTag a b = (toLowerCase (to_String a) = toLowerCase (to_String b))"

definition containsTag :: "jsval \<Rightarrow> jsval \<Rightarrow> error + bool" where
  "containsTag list candidate =
     (if \<not> truthy list then Inr False
      else case list of
        JArr vs ps \<Rightarrow> Inr (list_ex (\<lambda>t. equalTag t candidate) vs)
      | _ \<Rightarrow> Inl TypeError)"

definition push :: "jsval \<Rightarrow> jsval \<Rightarrow> error + jsval" where
  "push arr v = (case arr of JArr vs ps \<Rightarrow> Inr (JArr (vs @ [v]) ps) | _ \<Rightarrow> Inl TypeError)"

definition empty_entry :: jsval where
  "empty_entry = JObj [(''tags'', JArr [] [])]"

definition ensure_image_entry :: "jsval \<Rightarrow> string \<Rightarrow> error + jsval" where
  "ensure_image_entry project fileName =
     bindE (get_prop project ''images'') (\<lambda>images.
     bindE (get_prop images fileName) (\<lambda>entry.
       if truthy entry then Inr project
       else bindE (set_prop images fileName empty_entry) (\<lambda>images'.
            set_prop project ''images'' images')))"

definition push_if_absent :: "jsval \<Rightarrow> string \<Rightarrow> string \<Rightarrow> error + jsval" where
  "push_if_absent project fileName tag =
     bindE (get_prop project ''images'') (\<lambda>images.
     bindE (get_prop images fileName) (\<lambda>entry.
     bindE (get_prop entry ''tags'') (\<lambda>tags.
     bindE (containsTag tags (JStr tag)) (\<lambda>present.
       if present then Inr project
       else bindE (push tags (JStr tag)) (\<lambda>tags'.
            bindE (set_prop entry ''tags'' tags') (\<lambda>entry'.
            bindE (set_prop images fileName entry') (\<lambda>images'.
            set_prop project ''images'' images')))))))"

definition upsertGlobalTag :: "jsval \<Rightarrow> string \<Rightarrow> error + jsval" where
  "upsertGlobalTag project tag =
     bindE (get_prop project ''tags'') (\<lambda>t0.
     bindE (if isArray t0 then Inr project else set_prop project ''tags'' (JArr [] [])) (\<lambda>project1.
     bindE (get_prop project1 ''tags'') (\<lambda>t1.
     bindE (containsTag t1 (JStr tag)) (\<lambda>present.
       if present then Inr project1
       else bindE (push t1 (JStr tag)) (\<lambda>t2. set_prop project1 ''tags'' t2)))))"

definition addTag :: "jsval \<Rightarrow> string \<Rightarrow> jsval \<Rightarrow> jsval \<times> error option" where
  "addTag project fileName rawTag =
     (let tag = normalizeTag rawTag in
      if tag = [] then (project, None)
      else case ensure_image_entry project fileName of
        Inl e \<Rightarrow> (project, Some e)
      | Inr project1 \<Rightarrow>
          (case push_if_absent project1 fileName tag of
             Inl e \<Rightarrow> (project1, Some e)
           | Inr project2 \<Rightarrow>
               (case upsertGlobalTag project2 tag of
                  Inl e \<Rightarrow> (project2, Some e)
                | Inr project3 \<Rightarrow> (project3, None))))"

definition slice :: "jsval \<Rightarrow> error + jsval" where
  "slice v = (case v of JArr vs ps \<Rightarrow> Inr (JArr vs []) | JStr s \<Rightarrow> Inr (JStr s) | _ \<Rightarrow> Inl TypeError)"

definition getTags :: "jsval \<Rightarrow> string \<Rightarrow> error + jsval" where
  "getTags project fileName =
     bindE (get_prop project ''images'') (\<lambda>images.
     bindE (get_prop images fileName) (\<lambda>entry.
       let tags = opt_chain entry ''tags'' in
       slice (if truthy tags then tags else JArr [] [])))"

definition getAllTags :: "jsval \<Rightarrow> error + jsval" where
  "getAllTags project =
     bindE (get_prop project ''tags'') (\<lambda>tags.
       if isArray tags then slice tags else Inr (JArr [] []))"

definition newProject :: "string \<Rightarrow> jsval" where
  "newProject now =
     JObj [(''version'', JNum 1), (''root'', JStr ''.''), (''images'', JObj []),
           (''tags'', JArr [] []), (''updatedAt'', JStr now)]"

subsection \<open>The shape of a project (spec, section 3 and 6)\<close>

fun is_JStr :: "jsval \<Rightarrow> bool" where
  "is_JStr (JStr s) = True"
| "is_JStr v = False"

fun is_JNum :: "jsval \<Rightarrow> bool" where
  "is_JNum (JNum n) = True"
| "is_JNum v = False"

definition tag_key :: "jsval \<Rightarrow> string" where
  "tag_key t = toLowerCase (to_String t)"

definition tag_list :: "jsval \<Rightarrow> bool" where
  "tag_list v = (case v of
       JArr vs ps \<Rightarrow> list_all is_JStr vs \<and> distinct (map tag_key vs)
     | _ \<Rightarrow> False)"

definition valid_entry :: "jsval \<Rightarrow> bool" where
  "valid_entry e = (case e of JObj ps \<Rightarrow> tag_list (lookup_own ps ''tags'') | _ \<Rightarrow> False)"

definition valid_images :: "jsval \<Rightarrow> bool" where
  "valid_images v = (case v of JObj es \<Rightarrow> list_all (\<lambda>kv. valid_entry (snd kv)) es | _ \<Rightarrow> False)"

definition valid_project :: "jsval \<Rightarrow> bool" where
  "valid_project p = (case p of
       JObj ps \<Rightarrow>
         is_JNum (lookup_own ps ''version'') \<and> is_JStr (lookup_own ps ''root'') \<and>
         valid_images (lookup_own ps ''images'') \<and> tag_list (lookup_own ps ''tags'') \<and>
         is_JStr (lookup_own ps ''updatedAt'')
     | _ \<Rightarrow> False)"

definition elements :: "jsval \<Rightarrow> jsval list" where
  "elements v = (case v of JArr vs ps \<Rightarrow> vs | _ \<Rightarrow> [])"

definition stored_tags :: "jsval \<Rightarrow> string \<Rightarrow> jsval list" where
  "stored_tags project fileName = (case getTags project fileName of Inr v \<Rightarrow> elements v | Inl e \<Rightarrow> [])"

definition global_tags :: "jsval \<Rightarrow> jsval list" where
  "global_tags project = (case getAllTags project of Inr v \<Rightarrow> elements v | Inl e \<Rightarrow> [])"

section \<open>The file system\<close>

text \<open>
  A path is the list of its segments below the file system root, so that
  \<open>path.join(dir, name)\<close> for a single segment \<open>name\<close> is \<open>dir @ [name]\<close>,
  \<open>path.dirname\<close> is \<open>butlast\<close> and \<open>path.basename\<close> is \<open>last\<close>.
  A file carries its content and its modification time in milliseconds. A project file
  written by \<open>JSON.stringify\<close> is the content \<open>Json v\<close>, which \<open>JSON.parse\<close> reads
  back as \<open>v\<close>; \<open>Bytes\<close> is any content that \<open>JSON.parse\<close> rejects, a photo for
  instance. The empty path is the directory the relative paths start from and always
  exists. \<open>writable\<close> is false for a read-only medium, on which every change fails with
  EROFS, and \<open>device\<close> gives the storage device a path lies on. Symbolic links and
  the permissions of single files are not modelled. Renaming is modelled for files; the
  rename of a directory, which the program asks for only if a directory bears the name of
  a photo, is reported as EISDIR. Where an operation fails for more than one reason, the
  error it reports is the first in the order of its definition. Within one request the
  clock stands still: every \<open>new Date()\<close> of the request reads the same \<open>clock\<close>.
\<close>

type_synonym path = "string list"

datatype content = Bytes string | Json jsval

datatype node = Dir | File content rat

record filesystem =
  nodes :: "(path \<times> node) list"
  writable :: bool
  device :: "path \<Rightarrow> nat"

definition lookup :: "filesystem \<Rightarrow> path \<Rightarrow> node option" where
  "lookup fs p = (if p = [] then Some Dir else map_of (nodes fs) p)"

definition existsSync :: "filesystem \<Rightarrow> path \<Rightarrow> bool" where
  "existsSync fs p = (lookup fs p \<noteq> None)"

fun is_file :: "node option \<Rightarrow> bool" where
  "is_file (Some (File c t)) = True"
| "is_file n = False"

definition dirname :: "path \<Rightarrow> path" where
  "dirname p = butlast p"

definition basename :: "path \<Rightarrow> string" where
  "basename p = (if p = [] then [] else last p)"

definition ancestors :: "path \<Rightarrow> path list" where
  "ancestors p = map (\<lambda>n. take n p) [1..<Suc (length p)]"

fun add_dirs :: "path list \<Rightarrow> (path \<times> node) list \<Rightarrow> (path \<times> node) list" where
  "add_dirs [] ns = ns"
| "add_dirs (d # ds) ns = add_dirs ds (if map_of ns d = None then ns @ [(d, Dir)] else ns)"

definition mkdirSync_recursive :: "filesystem \<Rightarrow> path \<Rightarrow> error + filesystem" where
  "mkdirSync_recursive fs p =
     (if list_ex (\<lambda>d. is_file (lookup fs d)) (ancestors p) then Inl ENOTDIR
      else if list_all (\<lambda>d. existsSync fs d) (ancestors p) then Inr fs
      else if \<not> writable fs then Inl EROFS
      else Inr (fs\<lparr>nodes := add_dirs (ancestors p) (nodes fs)\<rparr>))"

definition writeFileSync :: "filesystem \<Rightarrow> path \<Rightarrow> content \<Rightarrow> rat \<Rightarrow> error + filesystem" where
  "writeFileSync fs p c now =
     (if p = [] then Inl EISDIR
      else if lookup fs (dirname p) \<noteq> Some Dir then Inl ENOENT
      else if lookup fs p = Some Dir then Inl EISDIR
      else if \<not> writable fs then Inl EROFS
      else Inr (fs\<lparr>nodes := AList.update p (File c now) (nodes fs)\<rparr>))"

definition readFileSync :: "filesystem \<Rightarrow> path \<Rightarrow> error + content" where
  "readFileSync fs p =
     (case lookup fs p of None \<Rightarrow> Inl ENOENT | Some Dir \<Rightarrow> Inl EISDIR | Some (File c t) \<Rightarrow> Inr c)"

definition renameSync :: "filesystem \<Rightarrow> path \<Rightarrow> path \<Rightarrow> error + filesystem" where
  "renameSync fs src dest =
     (if src = [] \<or> dest = [] \<or> lookup fs (dirname dest) \<noteq> Some Dir then Inl ENOENT
      else if device fs src \<noteq> device fs dest then Inl EXDEV
      else if \<not> writable fs then Inl EROFS
      else case lookup fs src of
        None \<Rightarrow> Inl ENOENT
      | Some Dir \<Rightarrow> Inl EISDIR
      | Some (File c t) \<Rightarrow>
          if lookup fs dest = Some Dir then Inl EISDIR
          else Inr (fs\<lparr>nodes := AList.update dest (File c t) (AList.delete src (nodes fs))\<rparr>))"

definition copyFileSync :: "filesystem \<Rightarrow> path \<Rightarrow> path \<Rightarrow> rat \<Rightarrow> error + filesystem" where
  "copyFileSync fs src dest now =
     (case lookup fs src of
        None \<Rightarrow> Inl ENOENT
      | Some Dir \<Rightarrow> Inl EISDIR
      | Some (File c t) \<Rightarrow> writeFileSync fs dest c now)"

definition unlinkSync :: "filesystem \<Rightarrow> path \<Rightarrow> error + filesystem" where
  "unlinkSync fs p =
     (case lookup fs p of
        None \<Rightarrow> Inl ENOENT
      | Some Dir \<Rightarrow> Inl EISDIR
      | Some (File c t) \<Rightarrow>
          if \<not> writable fs then Inl EROFS
          else Inr (fs\<lparr>nodes := AList.delete p (nodes fs)\<rparr>))"

definition linkSync :: "filesystem \<Rightarrow> path \<Rightarrow> path \<Rightarrow> error + filesystem" where
  "linkSync fs src dest =
     (case lookup fs src of
        None \<Rightarrow> Inl ENOENT
      | Some Dir \<Rightarrow> Inl EISDIR
      | Some (File c t) \<Rightarrow>
          if dest = [] \<or> lookup fs (dirname dest) \<noteq> Some Dir then Inl ENOENT
          else if existsSync fs dest then Inl EEXIST
          else if device fs src \<noteq> device fs dest then Inl EXDEV
          else if \<not> writable fs then Inl EROFS
          else Inr (fs\<lparr>nodes := AList.update dest (File c t) (nodes fs)\<rparr>))"

definition is_prefix :: "path \<Rightarrow> path \<Rightarrow> bool" where
  "is_prefix p q = (take (length p) q = p)"

definition rmSync_recursive_force :: "filesystem \<Rightarrow> path \<Rightarrow> error + filesystem" where
  "rmSync_recursive_force fs p =
     (if \<not> existsSync fs p then Inr fs
      else if p = [] \<or> \<not> writable fs then Inl EROFS
      else Inr (fs\<lparr>nodes := filter (\<lambda>kv. \<not> is_prefix p (fst kv)) (nodes fs)\<rparr>))"

definition readdirSync :: "filesystem \<Rightarrow> path \<Rightarrow> error + string list" where
  "readdirSync fs d =
     (case lookup fs d of
        None \<Rightarrow> Inl ENOENT
      | Some (File c t) \<Rightarrow> Inl ENOTDIR
      | Some Dir \<Rightarrow>
          Inr (map (\<lambda>kv. last (fst kv)) (filter (\<lambda>kv. fst kv \<noteq> [] \<and> butlast (fst kv) = d) (nodes fs))))"

definition statSync_mtimeMs :: "filesystem \<Rightarrow> path \<Rightarrow> error + rat" where
  "statSync_mtimeMs fs p =
     (case lookup fs p of None \<Rightarrow> Inl ENOENT | Some Dir \<Rightarrow> Inr 0 | Some (File c t) \<Rightarrow> Inr t)"

section \<open>Export helpers (photo-sorter.js)\<close>

definition invalid_chars :: "char list" where
  "invalid_chars = [CHR ''<'', CHR ''>'', CHR '':'', CHR 0x22, CHR ''/'', CHR 0x5C, CHR ''|'', CHR ''?'', CHR ''*'']"

definition reserved :: "string list" where
  "reserved = [''CON'', ''PRN'', ''AUX'', ''NUL'',
     ''COM1'', ''COM2'', ''COM3'', ''COM4'', ''COM5'', ''COM6'', ''COM7'', ''COM8'', ''COM9'',
     ''LPT1'', ''LPT2'', ''LPT3'', ''LPT4'', ''LPT5'', ''LPT6'', ''LPT7'', ''LPT8'', ''LPT9'']"

definition strip_trailing :: "string \<Rightarrow> string" where
  "strip_trailing s = rev (dropWhile (\<lambda>c. c = CHR 0x20 \<or> c = CHR ''.'') (rev s))"

definition safeTagToFolder :: "jsval \<Rightarrow> string" where
  "safeTagToFolder tag =
     (let s0 = trim (to_String (if truthy tag then tag else JStr []));
          s1 = trim (collapse_ws (map (\<lambda>c. if c \<in> set invalid_chars then CHR ''_'' else c) s0));
          s2 = strip_trailing s1;
          s3 = (if toUpperCase s2 \<in> set reserved then CHR ''_'' # s2 else s2);
          s4 = (if length s3 = 0 then ''tag'' else s3)
      in if length s4 > 100 then take 100 s4 else s4)"

definition ensureDirSync :: "filesystem \<Rightarrow> path \<Rightarrow> error + filesystem" where
  "ensureDirSync fs dirPath = (if \<not> existsSync fs dirPath then mkdirSync_recursive fs dirPath else Inr fs)"

definition moveWithFallbackSync :: "filesystem \<Rightarrow> rat \<Rightarrow> path \<Rightarrow> path \<Rightarrow> filesystem \<times> error option" where
  "moveWithFallbackSync fs now src dest =
     (case renameSync fs src dest of
        Inr fs1 \<Rightarrow> (fs1, None)
      | Inl e \<Rightarrow>
          if e = EXDEV then
            (case copyFileSync fs src dest now of
               Inl e2 \<Rightarrow> (fs, Some e2)
             | Inr fs1 \<Rightarrow> (case unlinkSync fs1 src of Inl e3 \<Rightarrow> (fs1, None) | Inr fs2 \<Rightarrow> (fs2, None)))
          else (fs, Some e))"

definition linkOrCopySync :: "filesystem \<Rightarrow> rat \<Rightarrow> path \<Rightarrow> path \<Rightarrow> filesystem \<times> error option" where
  "linkOrCopySync fs now src dest =
     (case linkSync fs src dest of
        Inr fs1 \<Rightarrow> (fs1, None)
      | Inl e \<Rightarrow>
          (case copyFileSync fs src dest now of
             Inl e2 \<Rightarrow> (fs, Some e2)
           | Inr fs1 \<Rightarrow> (fs1, None)))"

definition extname :: "string \<Rightarrow> string" where
  "extname name =
     (let after = length (takeWhile (\<lambda>c. c \<noteq> CHR ''.'') (rev name)) in
      if after = length name then []
      else let startDot = length name - after - 1 in
        if startDot = 0 \<or> name = ''..'' then [] else drop startDot name)"

definition basename_ext :: "string \<Rightarrow> string \<Rightarrow> string" where
  "basename_ext name ext =
     (if ext \<noteq> [] \<and> length ext < length name \<and> drop (length name - length ext) name = ext
      then take (length name - length ext) name else name)"

subsection \<open>Collision-free names\<close>

lemma digit_char_inj: "a < 10 \<Longrightarrow> b < 10 \<Longrightarrow> digit_char a = digit_char b \<Longrightarrow> a = b"
proof -
  have d: "distinct ''0123456789''" by simp
  assume "a < 10" "b < 10" "digit_char a = digit_char b"
  then show "a = b"
    using d nth_eq_iff_index_eq[of "''0123456789''" a b] by (simp add: digit_char_def)
qed

lemma dec_nonempty: "dec n \<noteq> []"
  by (subst dec.simps) simp

lemma dec_length_ge2: "\<not> n < 10 \<Longrightarrow> 2 \<le> length (dec n)"
proof -
  assume a: "\<not> n < 10"
  have "dec (n div 10) \<noteq> []" by (rule dec_nonempty)
  then have "1 \<le> length (dec (n div 10))" by (cases "dec (n div 10)") auto
  then show ?thesis using a by (subst dec.simps) simp
qed

lemma dec_inj: "dec m = dec n \<Longrightarrow> m = n"
proof (induction m arbitrary: n rule: dec.induct)
  case (1 m)
  show ?case
  proof (cases "m < 10")
    case True
    then have lm: "length (dec m) = 1" by (subst dec.simps) simp
    have "n < 10"
    proof (rule ccontr)
      assume "\<not> n < 10"
      then have "2 \<le> length (dec n)" by (rule dec_length_ge2)
      with lm "1.prems" show False by simp
    qed
    with True "1.prems" show ?thesis
      using digit_char_inj[of m n] by (subst (asm) dec.simps, subst (asm) (2) dec.simps) simp
  next
    case False
    have nn: "\<not> n < 10"
    proof
      assume "n < 10"
      then have "length (dec n) = 1" by (subst dec.simps) simp
      moreover from False have "2 \<le> length (dec m)" by (rule dec_length_ge2)
      ultimately show False using "1.prems" by simp
    qed
    have em: "dec m = dec (m div 10) @ [digit_char (m mod 10)]"
      using False by (subst dec.simps) simp
    have en: "dec n = dec (n div 10) @ [digit_char (n mod 10)]"
      using nn by (subst dec.simps) simp
    from "1.prems" em en have a: "dec (m div 10) = dec (n div 10)"
      and b: "digit_char (m mod 10) = digit_char (n mod 10)" by simp_all
    from "1.IH"[OF False a] have "m div 10 = n div 10" .
    moreover from b have "m mod 10 = n mod 10" using digit_char_inj[of "m mod 10" "n mod 10"] by simp
    ultimately show ?thesis by (metis div_mult_mod_eq)
  qed
qed

text \<open>
  The candidate names \<open>base_1.ext\<close>, \<open>base_2.ext\<close>, ... are pairwise different and the
  file system holds finitely many paths, so the search of \<open>uniquePath\<close> for a free name ends.
\<close>

definition candidate :: "path \<Rightarrow> string \<Rightarrow> string \<Rightarrow> nat \<Rightarrow> path" where
  "candidate dir base ext i = dir @ [base @ ''_'' @ dec i @ ext]"

lemma candidate_inj: "candidate dir base ext i = candidate dir base ext j \<Longrightarrow> i = j"
proof -
  assume "candidate dir base ext i = candidate dir base ext j"
  then have "dec i @ ext = dec j @ ext" by (simp add: candidate_def)
  then show ?thesis using dec_inj by simp
qed

definition taken_from :: "filesystem \<Rightarrow> path \<Rightarrow> string \<Rightarrow> string \<Rightarrow> nat \<Rightarrow> nat set" where
  "taken_from fs dir base ext i = {j. i \<le> j \<and> existsSync fs (candidate dir base ext j)}"

lemma finite_taken: "finite (taken_from fs dir base ext i)"
proof -
  let ?c = "candidate dir base ext"
  have "?c ` taken_from fs dir base ext i \<subseteq> insert [] (fst ` set (nodes fs))"
    by (auto simp: taken_from_def existsSync_def lookup_def split: if_splits dest!: map_of_SomeD intro: rev_image_eqI)
  then have "finite (?c ` taken_from fs dir base ext i)"
    by (rule finite_subset) simp
  moreover have "inj_on ?c (taken_from fs dir base ext i)"
    by (rule inj_onI) (rule candidate_inj)
  ultimately show ?thesis by (rule finite_imageD)
qed

function uniquePath_loop :: "filesystem \<Rightarrow> path \<Rightarrow> string \<Rightarrow> string \<Rightarrow> path \<Rightarrow> nat \<Rightarrow> path" where
  "uniquePath_loop fs dir base ext p i =
     (if existsSync fs p then uniquePath_loop fs dir base ext (candidate dir base ext i) (Suc i) else p)"
  by pat_completeness auto
termination
proof (relation "measure (\<lambda>(fs, dir, base, ext, p, i).
         card (taken_from fs dir base ext i) + (if existsSync fs p then 1 else 0))")
  show "wf (measure (\<lambda>(fs, dir, base, ext, p, i).
         card (taken_from fs dir base ext i) + (if existsSync fs p then 1 else 0)))" by simp
next
  fix fs :: filesystem and dir base ext p and i :: nat
  assume e: "existsSync fs p"
  let ?c = "candidate dir base ext"
  have split: "taken_from fs dir base ext i =
      (if existsSync fs (?c i) then insert i (taken_from fs dir base ext (Suc i)) else taken_from fs dir base ext (Suc i))"
    by (auto simp: taken_from_def Suc_le_eq le_less)
  have ni: "i \<notin> taken_from fs dir base ext (Suc i)" by (simp add: taken_from_def)
  have "card (taken_from fs dir base ext (Suc i)) + (if existsSync fs (?c i) then 1 else 0)
      = card (taken_from fs dir base ext i)"
    using split ni finite_taken[of fs dir base ext "Suc i"] by simp
  with e show "((fs, dir, base, ext, ?c i, Suc i), (fs, dir, base, ext, p, i))
      \<in> measure (\<lambda>(fs, dir, base, ext, p, i).
         card (taken_from fs dir base ext i) + (if existsSync fs p then 1 else 0))"
    by simp
qed

definition uniquePath :: "filesystem \<Rightarrow> path \<Rightarrow> path" where
  "uniquePath fs targetPath =
     (if \<not> existsSync fs targetPath then targetPath
      else let dir = dirname targetPath;
               ext = extname (basename targetPath);
               base = basename_ext (basename targetPath) ext
           in uniquePath_loop fs dir base ext targetPath 1)"

section \<open>Export planning and execution (photo-sorter.js)\<close>

record manager =
  rootDirectory :: path
  pm_project :: jsval
  pm_saveTimer :: "jsval option"

record app =
  photos :: "path list"
  sourceFolder :: path
  projectManager :: "manager option"

record plan =
  total :: nat
  tagged :: nat
  untagged :: nat
  perTag :: "(string \<times> nat) list"
  moves :: "(path \<times> path) list"
  links :: "(path \<times> path) list"

definition empty_plan :: plan where
  "empty_plan = \<lparr>total = 0, tagged = 0, untagged = 0, perTag = [], moves = [], links = []\<rparr>"

definition count_tag :: "jsval \<Rightarrow> plan \<Rightarrow> plan" where
  "count_tag t pl =
     pl\<lparr>perTag := AList.update (to_String t)
            ((case map_of (perTag pl) (to_String t) of None \<Rightarrow> 0 | Some c \<Rightarrow> c) + 1) (perTag pl)\<rparr>"

fun plan_links ::
  "path \<Rightarrow> string \<Rightarrow> path \<Rightarrow> jsval list \<Rightarrow> filesystem \<Rightarrow> plan \<Rightarrow> filesystem \<times> (error + plan)" where
  "plan_links exportRoot fileName destPrimary [] fs pl = (fs, Inr pl)"
| "plan_links exportRoot fileName destPrimary (t # ts) fs pl =
     (let folder = exportRoot @ [safeTagToFolder t] in
      case ensureDirSync fs folder of
        Inl e \<Rightarrow> (fs, Inl e)
      | Inr fs1 \<Rightarrow>
          (let dest = uniquePath fs1 (folder @ [fileName]) in
           plan_links exportRoot fileName destPrimary ts fs1 (pl\<lparr>links := links pl @ [(destPrimary, dest)]\<rparr>)))"

definition plan_photo ::
  "jsval \<Rightarrow> path \<Rightarrow> path \<Rightarrow> string \<Rightarrow> filesystem \<Rightarrow> plan \<Rightarrow> filesystem \<times> (error + plan)" where
  "plan_photo project srcFolder exportRoot fileName fs pl =
     (case bindE (get_prop project ''images'') (\<lambda>images. get_prop images fileName) of
        Inl e \<Rightarrow> (fs, Inl e)
      | Inr entry \<Rightarrow>
          (let t = opt_chain entry ''tags'';
               tags = (if isArray t then elements t else [])
           in if length tags = 0 then (fs, Inr (pl\<lparr>untagged := untagged pl + 1\<rparr>))
              else
                (let pl1 = pl\<lparr>tagged := tagged pl + 1\<rparr>;
                     primary = hd tags;
                     primaryFolder = exportRoot @ [safeTagToFolder primary]
                 in case ensureDirSync fs primaryFolder of
                      Inl e \<Rightarrow> (fs, Inl e)
                    | Inr fs1 \<Rightarrow>
                        (let srcAbs = srcFolder @ [fileName];
                             destPrimary = uniquePath fs1 (primaryFolder @ [fileName]);
                             pl2 = pl1\<lparr>moves := moves pl1 @ [(srcAbs, destPrimary)]\<rparr>
                         in case plan_links exportRoot fileName destPrimary (tl tags) fs1 pl2 of
                              (fs2, Inl e) \<Rightarrow> (fs2, Inl e)
                            | (fs2, Inr pl3) \<Rightarrow> (fs2, Inr (fold count_tag tags pl3))))))"

fun plan_photos ::
  "jsval \<Rightarrow> path \<Rightarrow> path \<Rightarrow> string list \<Rightarrow> filesystem \<Rightarrow> plan \<Rightarrow> filesystem \<times> (error + plan)" where
  "plan_photos project srcFolder exportRoot [] fs pl = (fs, Inr pl)"
| "plan_photos project srcFolder exportRoot (fileName # rest) fs pl =
     (case plan_photo project srcFolder exportRoot fileName fs pl of
        (fs1, Inl e) \<Rightarrow> (fs1, Inl e)
      | (fs1, Inr pl1) \<Rightarrow> plan_photos project srcFolder exportRoot rest fs1 pl1)"

definition buildExportPlan :: "app \<Rightarrow> filesystem \<Rightarrow> path \<Rightarrow> filesystem \<times> (error + plan)" where
  "buildExportPlan a fs exportRoot =
     (case projectManager a of
        None \<Rightarrow> (fs, Inr empty_plan)
      | Some pm \<Rightarrow>
          if \<not> truthy (pm_project pm) then (fs, Inr empty_plan)
          else
            (let fileNames = map basename (photos a) in
             plan_photos (pm_project pm) (sourceFolder a) exportRoot fileNames fs
               (empty_plan\<lparr>total := length fileNames\<rparr>)))"

definition project_loaded :: "app \<Rightarrow> bool" where
  "project_loaded a = (case projectManager a of None \<Rightarrow> False | Some pm \<Rightarrow> truthy (pm_project pm))"

definition export_dry_run :: "app \<Rightarrow> filesystem \<Rightarrow> path option \<Rightarrow> filesystem \<times> plan option" where
  "export_dry_run a fs exportRootArg =
     (let exportRoot = (case exportRootArg of Some r \<Rightarrow> r | None \<Rightarrow> sourceFolder a) in
      case ensureDirSync fs exportRoot of
        Inl e \<Rightarrow> (fs, None)
      | Inr fs1 \<Rightarrow>
          (case buildExportPlan a fs1 exportRoot of
             (fs2, Inl e) \<Rightarrow> (fs2, None)
           | (fs2, Inr pl) \<Rightarrow> (fs2, Some pl)))"

fun run_moves :: "rat \<Rightarrow> (path \<times> path) list \<Rightarrow> filesystem \<Rightarrow> filesystem \<times> error option" where
  "run_moves now [] fs = (fs, None)"
| "run_moves now (m # ms) fs =
     (case ensureDirSync fs (dirname (snd m)) of
        Inl e \<Rightarrow> (fs, Some e)
      | Inr fs1 \<Rightarrow>
          (case moveWithFallbackSync fs1 now (fst m) (snd m) of
             (fs2, Some e) \<Rightarrow> (fs2, Some e)
           | (fs2, None) \<Rightarrow> run_moves now ms fs2))"

fun run_links :: "rat \<Rightarrow> (path \<times> path) list \<Rightarrow> filesystem \<Rightarrow> filesystem \<times> error option" where
  "run_links now [] fs = (fs, None)"
| "run_links now (l # ls) fs =
     (case ensureDirSync fs (dirname (snd l)) of
        Inl e \<Rightarrow> (fs, Some e)
      | Inr fs1 \<Rightarrow>
          (case linkOrCopySync fs1 now (fst l) (snd l) of
             (fs2, Some e) \<Rightarrow> (fs2, Some e)
           | (fs2, None) \<Rightarrow> run_links now ls fs2))"

datatype export_result = ExportOk nat nat | ExportFailed error

definition export_execute :: "app \<Rightarrow> filesystem \<Rightarrow> rat \<Rightarrow> path option \<Rightarrow> filesystem \<times> export_result" where
  "export_execute a fs now exportRootArg =
     (let exportRoot = (case exportRootArg of Some r \<Rightarrow> r | None \<Rightarrow> sourceFolder a) in
      case buildExportPlan a fs exportRoot of
        (fs1, Inl e) \<Rightarrow> (fs1, ExportFailed e)
      | (fs1, Inr pl) \<Rightarrow>
          (case run_moves now (moves pl) fs1 of
             (fs2, Some e) \<Rightarrow> (fs2, ExportFailed e)
           | (fs2, None) \<Rightarrow>
               (case run_links now (links pl) fs2 of
                  (fs3, Some e) \<Rightarrow> (fs3, ExportFailed e)
                | (fs3, None) \<Rightarrow> (fs3, ExportOk (length (moves pl)) (length (links pl))))))"

subsection \<open>The scenario of the specification (section 8)\<close>

definition scenario_project :: jsval where
  "scenario_project =
     JObj [(''version'', JNum 1), (''root'', JStr ''.''),
       (''images'', JObj [(''img001.jpg'', JObj [(''tags'', JArr [JStr ''Yes'', JStr ''Maybe''] [])]),
                          (''img002.jpg'', JObj [(''tags'', JArr [JStr ''Yes''] [])])]),
       (''tags'', JArr [JStr ''Yes'', JStr ''Maybe''] []),
       (''updatedAt'', JStr ''2026-01-01T00:00:00.000Z'')]"

definition scenario_fs :: filesystem where
  "scenario_fs =
     \<lparr>nodes = [([''photos''], Dir),
               ([''photos'', ''img001.jpg''], File (Bytes ''first'') 1),
               ([''photos'', ''img002.jpg''], File (Bytes ''second'') 2)],
      writable = True, device = (\<lambda>p. 0)\<rparr>"

definition scenario_app :: app where
  "scenario_app =
     \<lparr>photos = [[''photos'', ''img001.jpg''], [''photos'', ''img002.jpg'']],
      sourceFolder = [''photos''],
      projectManager = Some \<lparr>rootDirectory = [''photos''], pm_project = scenario_project, pm_saveTimer = None\<rparr>\<rparr>"

definition only_dirs_added :: "filesystem \<Rightarrow> filesystem \<Rightarrow> bool" where
  "only_dirs_added fs fs' =
     (writable fs' = writable fs \<and> device fs' = device fs \<and>
      (\<forall>q. lookup fs' q = lookup fs q \<or> (lookup fs q = None \<and> lookup fs' q = Some Dir)))"



section \<open>The project store (projectManager.js)\<close>

text \<open>
  \<open>json_image v\<close> is what \<open>JSON.parse(JSON.stringify(v))\<close> gives for an object or array
  \<open>v\<close>: properties whose value is \<open>undefined\<close> and the named properties of arrays are
  dropped, and \<open>undefined\<close> array elements become \<open>null\<close>.
\<close>

fun json_image :: "jsval \<Rightarrow> jsval" where
  "json_image (JObj ps) =
     JObj (map (\<lambda>kv. (fst kv, json_image (snd kv))) (filter (\<lambda>kv. snd kv \<noteq> JUndefined) ps))"
| "json_image (JArr vs ps) = JArr (map (\<lambda>v. if v = JUndefined then JNull else json_image v) vs) []"
| "json_image v = v"

record clock =
  iso_now :: string
  ms_now :: rat

definition projectDir :: "manager \<Rightarrow> path" where
  "projectDir pm = rootDirectory pm @ [''.photo-sorter'']"

definition projectFilePath :: "manager \<Rightarrow> path" where
  "projectFilePath pm = projectDir pm @ [''project.json'']"

definition ensureProjectDir :: "filesystem \<Rightarrow> manager \<Rightarrow> error + filesystem" where
  "ensureProjectDir fs pm =
     (if \<not> existsSync fs (projectDir pm) then mkdirSync_recursive fs (projectDir pm) else Inr fs)"

definition safeReadJson :: "filesystem \<Rightarrow> path \<Rightarrow> jsval" where
  "safeReadJson fs filePath =
     (case readFileSync fs filePath of
        Inl e \<Rightarrow> JNull
      | Inr (Bytes raw) \<Rightarrow> JNull
      | Inr (Json v) \<Rightarrow> v)"

text \<open>
  \<open>Array.prototype.sort\<close> with a comparison function is stable; \<open>sort_by le\<close> is the
  stable insertion sort for \<open>le a b\<close> standing for \<open>compare(a, b) <= 0\<close>. For a comparison
  that is a total preorder every stable sort returns this list.
\<close>

fun insert_by :: "('a \<Rightarrow> 'a \<Rightarrow> bool) \<Rightarrow> 'a \<Rightarrow> 'a list \<Rightarrow> 'a list" where
  "insert_by le x [] = [x]"
| "insert_by le x (y # ys) = (if le x y then x # y # ys else y # insert_by le x ys)"

definition sort_by :: "('a \<Rightarrow> 'a \<Rightarrow> bool) \<Rightarrow> 'a list \<Rightarrow> 'a list" where
  "sort_by le xs = foldr (insert_by le) xs []"

definition startsWith :: "string \<Rightarrow> string \<Rightarrow> bool" where
  "startsWith s pre = (take (length pre) s = pre)"

definition endsWith :: "string \<Rightarrow> string \<Rightarrow> bool" where
  "endsWith s suf = (length suf \<le> length s \<and> drop (length s - length suf) s = suf)"

definition stamp :: "clock \<Rightarrow> string" where
  "stamp clk = take 14 (filter (\<lambda>c. c \<notin> set ''-:T.Z'') (iso_now clk))"

fun stat_all :: "filesystem \<Rightarrow> path \<Rightarrow> string list \<Rightarrow> error + (string \<times> rat) list" where
  "stat_all fs dir [] = Inr []"
| "stat_all fs dir (f # rest) =
     bindE (statSync_mtimeMs fs (dir @ [f])) (\<lambda>t.
     bindE (stat_all fs dir rest) (\<lambda>more. Inr ((f, t) # more)))"

fun unlink_each :: "filesystem \<Rightarrow> path \<Rightarrow> string list \<Rightarrow> filesystem" where
  "unlink_each fs dir [] = fs"
| "unlink_each fs dir (f # rest) =
     unlink_each (case unlinkSync fs (dir @ [f]) of Inl e \<Rightarrow> fs | Inr fs1 \<Rightarrow> fs1) dir rest"

definition rotate_backups :: "filesystem \<Rightarrow> clock \<Rightarrow> manager \<Rightarrow> path \<Rightarrow> filesystem" where
  "rotate_backups fs clk pm targetPath =
     (if \<not> existsSync fs targetPath then fs
      else
        (let backupsDir = projectDir pm @ [''backups''] in
         case (if \<not> existsSync fs backupsDir then mkdirSync_recursive fs backupsDir else Inr fs) of
           Inl e \<Rightarrow> fs
         | Inr fs1 \<Rightarrow>
             (let backupPath = backupsDir @ [''project-'' @ stamp clk @ ''.json''] in
              case copyFileSync fs1 targetPath backupPath (ms_now clk) of
                Inl e \<Rightarrow> fs1
              | Inr fs2 \<Rightarrow>
                  (case readdirSync fs2 backupsDir of
                     Inl e \<Rightarrow> fs2
                   | Inr listed \<Rightarrow>
                       (case stat_all fs2 backupsDir
                               (filter (\<lambda>f. startsWith f ''project-'' \<and> endsWith f ''.json'') listed) of
                          Inl e \<Rightarrow> fs2
                        | Inr stats \<Rightarrow>
                            (let files = sort_by (\<lambda>a b. snd b - snd a \<le> 0) stats in
                             unlink_each fs2 backupsDir (map fst (drop 5 files))))))))"

definition atomicWrite ::
  "filesystem \<Rightarrow> clock \<Rightarrow> manager \<Rightarrow> path \<Rightarrow> content \<Rightarrow> filesystem \<times> error option" where
  "atomicWrite fs clk pm targetPath contents =
     (let fs1 = rotate_backups fs clk pm targetPath;
          tempPath = butlast targetPath @ [last targetPath @ ''.tmp'']
      in case writeFileSync fs1 tempPath contents (ms_now clk) of
           Inl e \<Rightarrow> (fs1, Some e)
         | Inr fs2 \<Rightarrow>
             (case renameSync fs2 tempPath targetPath of
                Inl e \<Rightarrow> (fs2, Some e)
              | Inr fs3 \<Rightarrow> (fs3, None)))"

fun merge_images :: "jsval \<Rightarrow> string list \<Rightarrow> error + jsval" where
  "merge_images project [] = Inr project"
| "merge_images project (fileName # rest) =
     bindE (ensure_image_entry project fileName) (\<lambda>project1. merge_images project1 rest)"

definition loadOrCreate_try ::
  "manager \<Rightarrow> filesystem \<Rightarrow> clock \<Rightarrow> path list \<Rightarrow> filesystem \<times> (error + jsval)" where
  "loadOrCreate_try pm fs clk initialImagePaths =
     (case ensureProjectDir fs pm of
        Inl e \<Rightarrow> (fs, Inl e)
      | Inr fs1 \<Rightarrow>
          (let loaded =
                 (if existsSync fs1 (projectFilePath pm) then
                    (let parsed = safeReadJson fs1 (projectFilePath pm) in
                     if \<not> truthy parsed \<or> \<not> typeof_object parsed then newProject (iso_now clk) else parsed)
                  else newProject (iso_now clk));
               imageFileNames = filter (\<lambda>n. n \<noteq> []) (map basename initialImagePaths)
           in case bindE (merge_images loaded imageFileNames)
                     (\<lambda>merged. set_prop merged ''updatedAt'' (JStr (iso_now clk))) of
                Inl e \<Rightarrow> (fs1, Inl e)
              | Inr project \<Rightarrow>
                  (case atomicWrite fs1 clk pm (projectFilePath pm) (Json (json_image project)) of
                     (fs2, Some e) \<Rightarrow> (fs2, Inl e)
                   | (fs2, None) \<Rightarrow> (fs2, Inr project))))"

definition loadOrCreate :: "manager \<Rightarrow> filesystem \<Rightarrow> clock \<Rightarrow> path list \<Rightarrow> manager \<times> filesystem" where
  "loadOrCreate pm fs clk initialImagePaths =
     (case loadOrCreate_try pm fs clk initialImagePaths of
        (fs1, Inr project) \<Rightarrow> (pm\<lparr>pm_project := project\<rparr>, fs1)
      | (fs1, Inl e) \<Rightarrow> (pm\<lparr>pm_project := newProject (iso_now clk)\<rparr>, fs1))"

definition images_of :: "jsval \<Rightarrow> (string \<times> jsval) list" where
  "images_of project = (case get_prop project ''images'' of Inr (JObj es) \<Rightarrow> es | _ \<Rightarrow> [])"

definition discovered :: "path list \<Rightarrow> string list" where
  "discovered initialImagePaths = filter (\<lambda>n. n \<noteq> []) (map basename initialImagePaths)"

text \<open>A root that already holds the project of the scenario, and the same root read-only.\<close>

definition stored_fs :: filesystem where
  "stored_fs =
     \<lparr>nodes = [([''photos''], Dir),
               ([''photos'', ''img001.jpg''], File (Bytes ''first'') 1),
               ([''photos'', ''img002.jpg''], File (Bytes ''second'') 2),
               ([''photos'', ''img003.jpg''], File (Bytes ''third'') 3),
               ([''photos'', ''.photo-sorter''], Dir),
               ([''photos'', ''.photo-sorter'', ''project.json''], File (Json scenario_project) 4)],
      writable = True, device = (\<lambda>p. 0)\<rparr>"

definition readonly_fs :: filesystem where
  "readonly_fs = stored_fs\<lparr>writable := False\<rparr>"



definition three_photos :: "path list" where
  "three_photos = [[''photos'', ''img001.jpg''], [''photos'', ''img002.jpg''], [''photos'', ''img003.jpg'']]"

definition closed_manager :: manager where
  "closed_manager = \<lparr>rootDirectory = [''photos''], pm_project = JNull, pm_saveTimer = None\<rparr>"

definition later :: clock where
  "later = \<lparr>iso_now = ''2026-02-02T10:00:00.000Z'', ms_now = 10\<rparr>"


section \<open>Ordering the photos (photo-sorter.js)\<close>

text \<open>
  \<open>exifr\<close> is \<open>None\<close> when the optional module is missing; otherwise it gives, for the
  content of a file, the \<open>getTime()\<close> of its \<open>DateTimeOriginal\<close> when parsing succeeds and
  yields a date (a date whose time value is NaN is outside the model).
  \<open>collate a b\<close> is the number that
  \<open>a.localeCompare(b, undefined, {numeric: true, sensitivity: 'base'})\<close> returns. The
  collation is the runtime's and no part of the repository, so it is a parameter of the
  model; what is known of it is what the two options promise, and the theorem on the
  order of the photos states that as its hypotheses.
\<close>

record meta =
  m_file :: path
  m_exifDateMs :: "int option"
  m_mtimeMs :: rat
  m_name :: string

definition read_meta :: "filesystem \<Rightarrow> (content \<Rightarrow> int option) option \<Rightarrow> path \<Rightarrow> meta" where
  "read_meta fs exifr file =
     \<lparr>m_file = file,
      m_exifDateMs =
        (case exifr of
           None \<Rightarrow> None
         | Some parse \<Rightarrow> (case readFileSync fs file of Inl e \<Rightarrow> None | Inr c \<Rightarrow> parse c)),
      m_mtimeMs = (case statSync_mtimeMs fs file of Inl e \<Rightarrow> 0 | Inr t \<Rightarrow> t),
      m_name = basename file\<rparr>"

definition compare_meta :: "(string \<Rightarrow> string \<Rightarrow> int) \<Rightarrow> meta \<Rightarrow> meta \<Rightarrow> rat" where
  "compare_meta collate a b =
     (if m_exifDateMs a \<noteq> None \<and> m_exifDateMs b \<noteq> None \<and> m_exifDateMs a \<noteq> m_exifDateMs b
      then of_int (the (m_exifDateMs a) - the (m_exifDateMs b))
      else if m_exifDateMs a \<noteq> None \<and> m_exifDateMs b = None then - 1
      else if m_exifDateMs a = None \<and> m_exifDateMs b \<noteq> None then 1
      else if m_mtimeMs a \<noteq> m_mtimeMs b then m_mtimeMs a - m_mtimeMs b
      else of_int (collate (m_name a) (m_name b)))"

definition orderPhotos ::
  "filesystem \<Rightarrow> (content \<Rightarrow> int option) option \<Rightarrow> (string \<Rightarrow> string \<Rightarrow> int) \<Rightarrow> path list \<Rightarrow> path list" where
  "orderPhotos fs exifr collate filePaths =
     (let withMeta = map (read_meta fs exifr) filePaths in
      map m_file (sort_by (\<lambda>a b. compare_meta collate a b \<le> 0) withMeta))"

text \<open>
  The precedence in the words of the specification (section 4.4), on what the file system
  holds: the capture time of a photo is what the metadata reader finds in the content of
  the file at its path, its modification time is that of the file, and its name is the
  last segment of the path. \<open>spec_before fs exifr collate p q\<close> says that the photo at
  \<open>p\<close> may stand before the photo at \<open>q\<close>.
\<close>

definition capture_time :: "filesystem \<Rightarrow> (content \<Rightarrow> int option) option \<Rightarrow> path \<Rightarrow> int option" where
  "capture_time fs exifr p =
     (case exifr of
        None \<Rightarrow> None
      | Some parse \<Rightarrow> (case lookup fs p of Some (File c t) \<Rightarrow> parse c | _ \<Rightarrow> None))"

definition modified_time :: "filesystem \<Rightarrow> path \<Rightarrow> rat" where
  "modified_time fs p = (case lookup fs p of Some (File c t) \<Rightarrow> t | _ \<Rightarrow> 0)"

definition spec_later_tiers :: "filesystem \<Rightarrow> (string \<Rightarrow> string \<Rightarrow> int) \<Rightarrow> path \<Rightarrow> path \<Rightarrow> bool" where
  "spec_later_tiers fs collate p q =
     (modified_time fs p < modified_time fs q \<or>
      (modified_time fs p = modified_time fs q \<and> collate (basename p) (basename q) \<le> 0))"

definition spec_before ::
  "filesystem \<Rightarrow> (content \<Rightarrow> int option) option \<Rightarrow> (string \<Rightarrow> string \<Rightarrow> int) \<Rightarrow> path \<Rightarrow> path \<Rightarrow> bool" where
  "spec_before fs exifr collate p q =
     (case (capture_time fs exifr p, capture_time fs exifr q) of
        (Some x, Some y) \<Rightarrow> x < y \<or> (x = y \<and> spec_later_tiers fs collate p q)
      | (Some x, None) \<Rightarrow> True
      | (None, Some y) \<Rightarrow> False
      | (None, None) \<Rightarrow> spec_later_tiers fs collate p q)"

text \<open>The same precedence on the metadata records that \<open>orderPhotos\<close> builds.\<close>

definition spec_tie :: "(string \<Rightarrow> string \<Rightarrow> int) \<Rightarrow> meta \<Rightarrow> meta \<Rightarrow> bool" where
  "spec_tie collate a b =
     (m_mtimeMs a < m_mtimeMs b \<or> (m_mtimeMs a = m_mtimeMs b \<and> collate (m_name a) (m_name b) \<le> 0))"

definition spec_precedes :: "(string \<Rightarrow> string \<Rightarrow> int) \<Rightarrow> meta \<Rightarrow> meta \<Rightarrow> bool" where
  "spec_precedes collate a b =
     (case (m_exifDateMs a, m_exifDateMs b) of
        (Some x, Some y) \<Rightarrow> x < y \<or> (x = y \<and> spec_tie collate a b)
      | (Some x, None) \<Rightarrow> True
      | (None, Some y) \<Rightarrow> False
      | (None, None) \<Rightarrow> spec_tie collate a b)"

text \<open>
  A decimal digit, and the number a run of digits denotes.
\<close>

definition is_digit :: "char \<Rightarrow> bool" where
  "is_digit c = (c \<in> set ''0123456789'')"

definition digit_val :: "char \<Rightarrow> nat" where
  "digit_val c = (case map_of (zip ''0123456789'' [0, 1, 2, 3, 4, 5, 6, 7, 8, 9]) c of Some d \<Rightarrow> d | None \<Rightarrow> 0)"

definition number_of :: "string \<Rightarrow> nat" where
  "number_of ds = foldl (\<lambda>a d. 10 * a + digit_val d) 0 ds"

text \<open>
  A collation for examples, natural comparison: a name is cut into its runs of decimal
  digits, each taken as the number it denotes, and its other characters, each taken in
  lower case; two names are compared chunk by chunk, a number before a character,
  numbers by value and characters by code unit.
\<close>

function chunks :: "string \<Rightarrow> (nat \<times> nat) list" where
  "chunks [] = []"
| "chunks (c # cs) =
     (if is_digit c then (0, number_of (takeWhile is_digit (c # cs))) # chunks (dropWhile is_digit cs)
      else (1, of_char c) # chunks cs)"
  by pat_completeness auto
termination
  by (relation "measure length") (auto simp: less_Suc_eq_le length_dropWhile_le)

definition natural_key :: "string \<Rightarrow> (nat \<times> nat) list" where
  "natural_key s = chunks (toLowerCase s)"

definition natural_compare :: "string \<Rightarrow> string \<Rightarrow> int" where
  "natural_compare a b =
     (if natural_key a < natural_key b then - 1 else if natural_key a = natural_key b then 0 else 1)"



text \<open>
  A metadata reader for examples, which reads the capture time off the content, and an
  album in which neither the names nor the modification times give the order of the
  capture times.
\<close>

definition example_exifr :: "content \<Rightarrow> int option" where
  "example_exifr c =
     (if c = Bytes ''first'' then Some 1000 else if c = Bytes ''second'' then Some 2000 else None)"

definition order_fs :: filesystem where
  "order_fs =
     \<lparr>nodes = [([''album''], Dir),
               ([''album'', ''a.jpg''], File (Bytes ''second'') 1),
               ([''album'', ''b.jpg''], File (Bytes ''first'') 9),
               ([''album'', ''c.jpg''], File (Bytes ''plain'') 7),
               ([''album'', ''d.jpg''], File (Bytes ''plain'') 3),
               ([''album'', ''e.jpg''], File (Bytes ''first'') 4),
               ([''album'', ''IMG_10.jpg''], File (Bytes ''plain'') 8),
               ([''album'', ''img_2.jpg''], File (Bytes ''plain'') 8)],
      writable = True, device = (\<lambda>p. 0)\<rparr>"

definition order_photos :: "path list" where
  "order_photos =
     [[''album'', ''a.jpg''], [''album'', ''IMG_10.jpg''], [''album'', ''c.jpg''], [''album'', ''b.jpg''],
      [''album'', ''img_2.jpg''], [''album'', ''d.jpg''], [''album'', ''e.jpg'']]"

section \<open>Duplicate detection (statsManager.js)\<close>

text \<open>
  \<open>md5\<close> is the digest function, from the bytes read to the bytes of the digest;
  \<open>hex\<close> prints them as \<open>digest('hex')\<close> does. \<open>now\<close> is the value of \<open>Date.now()\<close>, and \<open>clock_at i\<close> is its value when photo
  number \<open>i\<close> of the scan is hashed.
\<close>

definition maxBytes :: nat where
  "maxBytes = 10 * 1024 * 1024"

definition hexdigit :: "nat \<Rightarrow> char" where
  "hexdigit d = ''0123456789abcdef'' ! d"

definition hex_byte :: "nat \<Rightarrow> string" where
  "hex_byte b = [hexdigit (b div 16 mod 16), hexdigit (b mod 16)]"

definition hex :: "nat list \<Rightarrow> string" where
  "hex bs = concat (map hex_byte bs)"

definition read_prefix :: "content \<Rightarrow> content" where
  "read_prefix c = (case c of Bytes s \<Rightarrow> Bytes (take (min maxBytes (length s)) s) | Json v \<Rightarrow> Json v)"

definition calculateFileHash :: "(content \<Rightarrow> nat list) \<Rightarrow> filesystem \<Rightarrow> nat \<Rightarrow> path \<Rightarrow> string" where
  "calculateFileHash md5 fs now filePath =
     (case lookup fs filePath of
        Some (File c t) \<Rightarrow> hex (md5 (read_prefix c))
      | _ \<Rightarrow> ''error_'' @ basename filePath @ ''_'' @ dec now)"

record stats =
  st_total :: nat
  st_categorized :: "(string \<times> nat) list"
  st_duplicates :: "(path \<times> path) list"
  st_lastUpdated :: "string option"

record statsManager =
  sm_sourceFolder :: path
  sm_stats :: stats
  sm_photoHashes :: "(string \<times> path) list"
  sm_categorizationMap :: "(path \<times> string) list"

definition note_photo ::
  "string \<Rightarrow> path \<Rightarrow> (path \<times> path) list \<times> (string \<times> path) list \<Rightarrow>
   (path \<times> path) list \<times> (string \<times> path) list" where
  "note_photo hash photo st =
     (case map_of (snd st) hash of
        Some original \<Rightarrow>
          if \<not> startsWith hash ''error_'' then (fst st @ [(original, photo)], snd st)
          else (fst st, AList.update hash photo (snd st))
      | None \<Rightarrow> (fst st, AList.update hash photo (snd st)))"

fun scan_photos ::
  "(content \<Rightarrow> nat list) \<Rightarrow> filesystem \<Rightarrow> (nat \<Rightarrow> nat) \<Rightarrow> nat \<Rightarrow> path list \<Rightarrow>
   (path \<times> path) list \<times> (string \<times> path) list \<Rightarrow> (path \<times> path) list \<times> (string \<times> path) list" where
  "scan_photos md5 fs clock_at i [] st = st"
| "scan_photos md5 fs clock_at i (photo # rest) st =
     scan_photos md5 fs clock_at (Suc i) rest (note_photo (calculateFileHash md5 fs (clock_at i) photo) photo st)"

definition zero_counts :: "(string \<times> nat) list" where
  "zero_counts = [(''yes'', 0), (''no'', 0), (''maybe'', 0)]"

definition count_category :: "string \<Rightarrow> (string \<times> nat) list \<Rightarrow> (string \<times> nat) list" where
  "count_category category counts =
     (case map_of counts category of None \<Rightarrow> counts | Some n \<Rightarrow> AList.update category (n + 1) counts)"

definition path_string :: "path \<Rightarrow> string" where
  "path_string p = concat (map (\<lambda>s. CHR ''/'' # s) p)"

definition stats_json :: "stats \<Rightarrow> jsval" where
  "stats_json s =
     JObj [(''total'', JNum (int (st_total s))),
           (''categorized'', JObj (map (\<lambda>kv. (fst kv, JNum (int (snd kv)))) (st_categorized s))),
           (''duplicates'',
              JArr (map (\<lambda>d. JObj [(''original'', JStr (path_string (fst d))),
                                    (''duplicate'', JStr (path_string (snd d)))]) (st_duplicates s)) []),
           (''lastUpdated'', (case st_lastUpdated s of None \<Rightarrow> JNull | Some t \<Rightarrow> JStr t))]"

definition saveStats :: "statsManager \<Rightarrow> filesystem \<Rightarrow> clock \<Rightarrow> filesystem" where
  "saveStats sm fs clk =
     (let statsPath = sm_sourceFolder sm @ [''photo_sorter_stats.json''];
          tempPath = sm_sourceFolder sm @ [''photo_sorter_stats.json.tmp'']
      in case writeFileSync fs tempPath (Json (stats_json (sm_stats sm))) (ms_now clk) of
           Inl e \<Rightarrow> fs
         | Inr fs1 \<Rightarrow> (case renameSync fs1 tempPath statsPath of Inl e \<Rightarrow> fs1 | Inr fs2 \<Rightarrow> fs2))"

definition initialize ::
  "(content \<Rightarrow> nat list) \<Rightarrow> (nat \<Rightarrow> nat) \<Rightarrow> clock \<Rightarrow> statsManager \<Rightarrow> filesystem \<Rightarrow>
   path list \<Rightarrow> (path \<times> string) list \<Rightarrow> statsManager \<times> filesystem" where
  "initialize md5 clock_at clk sm fs photoList categorizationHistory =
     (let scanned = scan_photos md5 fs clock_at 0 photoList ([], []);
          categorization = fold (\<lambda>kv m. AList.update (fst kv) (snd kv) m) categorizationHistory [];
          sm1 = sm\<lparr>sm_stats :=
                      \<lparr>st_total = length photoList,
                       st_categorized = fold count_category (map snd categorization) zero_counts,
                       st_duplicates = fst scanned,
                       st_lastUpdated = Some (iso_now clk)\<rparr>,
                    sm_photoHashes := snd scanned,
                    sm_categorizationMap := categorization\<rparr>
      in (sm1, saveStats sm1 fs clk))"

text \<open>
  The duplicate pairs in the words of the specification (section 4.3). A fingerprint is
  taken with the photo that produced it and with whether it is the fallback of a failed
  read.
\<close>

fun fingerprints ::
  "(content \<Rightarrow> nat list) \<Rightarrow> filesystem \<Rightarrow> (nat \<Rightarrow> nat) \<Rightarrow> nat \<Rightarrow> path list \<Rightarrow> (string \<times> bool \<times> path) list" where
  "fingerprints md5 fs clock_at i [] = []"
| "fingerprints md5 fs clock_at i (photo # rest) =
     (calculateFileHash md5 fs (clock_at i) photo, \<not> is_file (lookup fs photo), photo)
       # fingerprints md5 fs clock_at (Suc i) rest"

fun spec_pairs :: "(string \<times> bool \<times> path) list \<Rightarrow> (string \<times> bool \<times> path) list \<Rightarrow> (path \<times> path) list" where
  "spec_pairs earlier [] = []"
| "spec_pairs earlier (fp # rest) =
     (case find (\<lambda>e. fst e = fst fp) earlier of
        Some first \<Rightarrow> (if fst (snd fp) then [] else [(snd (snd first), snd (snd fp))])
      | None \<Rightarrow> [])
     @ spec_pairs (earlier @ [fp]) rest"

text \<open>
  The table of hashes agrees with the photos seen so far: a fingerprint that is not a
  fallback is mapped to the first photo that produced it.
\<close>

definition agree :: "(string \<times> path) list \<Rightarrow> (string \<times> bool \<times> path) list \<Rightarrow> bool" where
  "agree hashes earlier =
     (\<forall>h. startsWith h ''error_'' \<or>
          map_of hashes h = map_option (\<lambda>e. snd (snd e)) (find (\<lambda>e. fst e = h) earlier))"

section \<open>Tag edits, the debounced save and revert\<close>

definition findIndex :: "(jsval \<Rightarrow> bool) \<Rightarrow> jsval list \<Rightarrow> nat option" where
  "findIndex P vs = (if list_ex P vs then Some (length (takeWhile (\<lambda>v. \<not> P v) vs)) else None)"

definition removeTag :: "jsval \<Rightarrow> string \<Rightarrow> jsval \<Rightarrow> jsval \<times> error option" where
  "removeTag project fileName rawTag =
     (let tag = normalizeTag rawTag in
      if tag = [] then (project, None)
      else case bindE (get_prop project ''images'') (\<lambda>images. get_prop images fileName) of
        Inl e \<Rightarrow> (project, Some e)
      | Inr entry \<Rightarrow>
          if \<not> truthy entry then (project, None)
          else
            (case bindE (get_prop entry ''tags'') (\<lambda>tags.
                    case tags of
                      JArr vs ps \<Rightarrow>
                        (case findIndex (\<lambda>t. equalTag t (JStr tag)) vs of
                           None \<Rightarrow> Inr project
                         | Some idx \<Rightarrow>
                             bindE (set_prop entry ''tags'' (JArr (take idx vs @ drop (Suc idx) vs) ps)) (\<lambda>entry'.
                             bindE (get_prop project ''images'') (\<lambda>images.
                             bindE (set_prop images fileName entry') (\<lambda>images'.
                             set_prop project ''images'' images'))))
                    | _ \<Rightarrow> Inl TypeError) of
               Inl e \<Rightarrow> (project, Some e)
             | Inr project1 \<Rightarrow> (project1, None)))"

text \<open>
  \<open>save\<close> schedules the write: the timer slot \<open>pm_saveTimer\<close> holds the project as
  serialised at the call, and an earlier pending write is dropped. \<open>timer_fires\<close> is the
  timer's callback, 500 ms after the last \<open>save\<close>.
\<close>

definition save :: "manager \<Rightarrow> filesystem \<Rightarrow> clock \<Rightarrow> (manager \<times> filesystem) \<times> error option" where
  "save pm fs clk =
     (let p0 = (if \<not> truthy (pm_project pm) then newProject (iso_now clk) else pm_project pm) in
      case set_prop p0 ''updatedAt'' (JStr (iso_now clk)) of
        Inl e \<Rightarrow> ((pm\<lparr>pm_project := p0\<rparr>, fs), Some e)
      | Inr p1 \<Rightarrow>
          (case ensureProjectDir fs pm of
             Inl e \<Rightarrow> ((pm\<lparr>pm_project := p1\<rparr>, fs), Some e)
           | Inr fs1 \<Rightarrow> ((pm\<lparr>pm_project := p1, pm_saveTimer := Some (json_image p1)\<rparr>, fs1), None)))"

definition timer_fires :: "manager \<Rightarrow> filesystem \<Rightarrow> clock \<Rightarrow> manager \<times> filesystem" where
  "timer_fires pm fs clk =
     (case pm_saveTimer pm of
        None \<Rightarrow> (pm, fs)
      | Some contents \<Rightarrow>
          (pm\<lparr>pm_saveTimer := None\<rparr>, fst (atomicWrite fs clk pm (projectFilePath pm) (Json contents))))"

record payload =
  p_filePath :: "path option"
  p_tag :: jsval

text \<open>
  The handlers of add-photo-tag and remove-photo-tag, as far as they change the state;
  the reply to the renderer is left out.
\<close>

definition add_photo_tag :: "app \<Rightarrow> filesystem \<Rightarrow> clock \<Rightarrow> payload \<Rightarrow> app \<times> filesystem" where
  "add_photo_tag a fs clk pl =
     (case (projectManager a, p_filePath pl) of
        (Some pm, Some filePath) \<Rightarrow>
          if \<not> truthy (p_tag pl) then (a, fs)
          else
            (case addTag (pm_project pm) (basename filePath) (p_tag pl) of
               (project1, Some e) \<Rightarrow> (a\<lparr>projectManager := Some (pm\<lparr>pm_project := project1\<rparr>)\<rparr>, fs)
             | (project1, None) \<Rightarrow>
                 (case save (pm\<lparr>pm_project := project1\<rparr>) fs clk of
                    ((pm2, fs2), r) \<Rightarrow> (a\<lparr>projectManager := Some pm2\<rparr>, fs2)))
      | _ \<Rightarrow> (a, fs))"

definition remove_photo_tag :: "app \<Rightarrow> filesystem \<Rightarrow> clock \<Rightarrow> payload \<Rightarrow> app \<times> filesystem" where
  "remove_photo_tag a fs clk pl =
     (case (projectManager a, p_filePath pl) of
        (Some pm, Some filePath) \<Rightarrow>
          if \<not> truthy (p_tag pl) then (a, fs)
          else
            (case removeTag (pm_project pm) (basename filePath) (p_tag pl) of
               (project1, Some e) \<Rightarrow> (a\<lparr>projectManager := Some (pm\<lparr>pm_project := project1\<rparr>)\<rparr>, fs)
             | (project1, None) \<Rightarrow>
                 (case save (pm\<lparr>pm_project := project1\<rparr>) fs clk of
                    ((pm2, fs2), r) \<Rightarrow> (a\<lparr>projectManager := Some pm2\<rparr>, fs2)))
      | _ \<Rightarrow> (a, fs))"

definition tryUnlink :: "filesystem \<Rightarrow> path \<Rightarrow> filesystem" where
  "tryUnlink fs p = (case unlinkSync fs p of Inl e \<Rightarrow> fs | Inr fs1 \<Rightarrow> fs1)"

definition tryRmDirRecursive :: "filesystem \<Rightarrow> path \<Rightarrow> filesystem" where
  "tryRmDirRecursive fs p = (case rmSync_recursive_force fs p of Inl e \<Rightarrow> fs | Inr fs1 \<Rightarrow> fs1)"

fun entries :: "jsval \<Rightarrow> (string \<times> jsval) list" where
  "entries (JObj ps) = ps"
| "entries (JArr vs ps) = array_entries vs @ ps"
| "entries (JStr s) = string_entries s"
| "entries v = []"

fun iterate :: "jsval \<Rightarrow> error + jsval list" where
  "iterate (JArr vs ps) = Inr vs"
| "iterate (JStr s) = Inr (map (\<lambda>c. JStr [c]) s)"
| "iterate v = Inl TypeError"

fun revert_secondary :: "path \<Rightarrow> string \<Rightarrow> jsval list \<Rightarrow> filesystem \<times> nat \<Rightarrow> filesystem \<times> nat" where
  "revert_secondary src fileName [] st = st"
| "revert_secondary src fileName (t # ts) st =
     (let p = src @ [safeTagToFolder t, fileName] in
      revert_secondary src fileName ts
        (if existsSync (fst st) p then (tryUnlink (fst st) p, snd st + 1) else st))"

definition revert_entry ::
  "path \<Rightarrow> rat \<Rightarrow> string \<times> jsval \<Rightarrow> filesystem \<times> nat \<times> nat \<Rightarrow> (filesystem \<times> nat \<times> nat) \<times> error option" where
  "revert_entry src now kv st =
     (let fs = fst st; restored = fst (snd st); removed = snd (snd st);
          t = opt_chain (snd kv) ''tags'';
          tags = (if isArray t then elements t else [])
      in if length tags = 0 then (st, None)
         else
           (let primaryPath = src @ [safeTagToFolder (hd tags), fst kv] in
            case (if existsSync fs primaryPath
                  then (case moveWithFallbackSync fs now primaryPath (uniquePath fs (src @ [fst kv])) of
                          (fs1, Some e) \<Rightarrow> ((fs1, restored), Some e)
                        | (fs1, None) \<Rightarrow> ((fs1, restored + 1), None))
                  else ((fs, restored), None)) of
              ((fs1, restored1), Some e) \<Rightarrow> ((fs1, restored1, removed), Some e)
            | ((fs1, restored1), None) \<Rightarrow>
                (case revert_secondary src (fst kv) (tl tags) (fs1, removed) of
                   (fs2, removed2) \<Rightarrow> ((fs2, restored1, removed2), None))))"

fun revert_entries ::
  "path \<Rightarrow> rat \<Rightarrow> (string \<times> jsval) list \<Rightarrow> filesystem \<times> nat \<times> nat \<Rightarrow> (filesystem \<times> nat \<times> nat) \<times> error option" where
  "revert_entries src now [] st = (st, None)"
| "revert_entries src now (kv # rest) st =
     (case revert_entry src now kv st of
        (st1, Some e) \<Rightarrow> (st1, Some e)
      | (st1, None) \<Rightarrow> revert_entries src now rest st1)"

datatype revert_result = RevertOk nat nat | RevertFailed error

definition revert_export :: "path \<Rightarrow> app \<Rightarrow> filesystem \<Rightarrow> clock \<Rightarrow> (app \<times> filesystem) \<times> revert_result" where
  "revert_export cwd a fs clk =
     (let opened =
            (case projectManager a of
               Some pm \<Rightarrow> (a, fs)
             | None \<Rightarrow>
                 (case loadOrCreate
                         \<lparr>rootDirectory = (if sourceFolder a = [] then cwd else sourceFolder a),
                          pm_project = JNull, pm_saveTimer = None\<rparr> fs clk [] of
                    (pm, fs1) \<Rightarrow> (a\<lparr>projectManager := Some pm\<rparr>, fs1)));
          a1 = fst opened;
          project = (case projectManager a1 of Some pm \<Rightarrow> pm_project pm | None \<Rightarrow> JNull);
          images = opt_chain project ''images''
      in case (if truthy project \<and> truthy images
               then revert_entries (sourceFolder a1) (ms_now clk) (entries images) (snd opened, 0, 0)
               else ((snd opened, 0, 0), None)) of
           ((fs2, restored, removed), Some e) \<Rightarrow> ((a1, fs2), RevertFailed e)
         | ((fs2, restored, removed), None) \<Rightarrow>
             (let known = opt_chain project ''tags'' in
              case (if truthy known then iterate known else Inr []) of
                Inl e \<Rightarrow> ((a1, fs2), RevertFailed e)
              | Inr ts \<Rightarrow>
                  (let fs3 = fold (\<lambda>t f. tryRmDirRecursive f (sourceFolder a1 @ [safeTagToFolder t])) ts fs2;
                       projDir = sourceFolder a1 @ [''.photo-sorter''];
                       fs4 = tryRmDirRecursive (tryUnlink fs3 (projDir @ [''project.json''])) projDir
                   in ((a1, fs4), RevertOk restored removed))))"

text \<open>The requests and the timer as events on the state of the main process.\<close>

datatype event =
    AddPhotoTag payload
  | RemovePhotoTag payload
  | TimerFires
  | ExportDryRun "path option"
  | ExportExecute "path option"
  | RevertExport

definition step :: "path \<Rightarrow> clock \<Rightarrow> event \<Rightarrow> app \<times> filesystem \<Rightarrow> app \<times> filesystem" where
  "step cwd clk ev s =
     (case ev of
        AddPhotoTag pl \<Rightarrow> add_photo_tag (fst s) (snd s) clk pl
      | RemovePhotoTag pl \<Rightarrow> remove_photo_tag (fst s) (snd s) clk pl
      | TimerFires \<Rightarrow>
          (case projectManager (fst s) of
             None \<Rightarrow> s
           | Some pm \<Rightarrow>
               (case timer_fires pm (snd s) clk of
                  (pm1, fs1) \<Rightarrow> ((fst s)\<lparr>projectManager := Some pm1\<rparr>, fs1)))
      | ExportDryRun arg \<Rightarrow> (fst s, fst (export_dry_run (fst s) (snd s) arg))
      | ExportExecute arg \<Rightarrow> (fst s, fst (export_execute (fst s) (snd s) (ms_now clk) arg))
      | RevertExport \<Rightarrow> fst (revert_export cwd (fst s) (snd s) clk))"















section \<open>Properties of the tag operations\<close>

lemma list_all_update:
  "list_all P ps \<Longrightarrow> P (k, v) \<Longrightarrow> list_all P (AList.update k v ps)"
  by (induction ps) auto

lemma lookup_own_update [simp]:
  "lookup_own (AList.update k v ps) k' = (if k' = k then v else lookup_own ps k')"
  by (simp add: lookup_own_def update_conv')

lemma valid_entry_lookup:
  "list_all (\<lambda>kv. valid_entry (snd kv)) es \<Longrightarrow> lookup_own es f = JUndefined \<or> valid_entry (lookup_own es f)"
  by (induction es) (auto simp: lookup_own_def)

lemma valid_entry_truthy: "valid_entry e \<Longrightarrow> truthy e"
  by (cases e) (auto simp: valid_entry_def)

lemma valid_entry_empty [simp]: "valid_entry empty_entry"
  by (simp add: valid_entry_def empty_entry_def lookup_own_def tag_list_def)

lemma empty_entry_simps [simp]:
  "truthy empty_entry" "opt_chain empty_entry ''tags'' = JArr [] []"
  "get_prop empty_entry ''tags'' = Inr (JArr [] [])"
  by (simp_all add: empty_entry_def lookup_own_def)

lemma valid_projectE:
  assumes "valid_project p"
  obtains ps es gs gps where "p = JObj ps" "lookup_own ps ''images'' = JObj es"
    "list_all (\<lambda>kv. valid_entry (snd kv)) es" "lookup_own ps ''tags'' = JArr gs gps"
    "list_all is_JStr gs" "distinct (map tag_key gs)"
    "is_JNum (lookup_own ps ''version'')" "is_JStr (lookup_own ps ''root'')" "is_JStr (lookup_own ps ''updatedAt'')"
  using assms
  by (auto simp: valid_project_def valid_images_def tag_list_def split: jsval.splits)

lemma ensure_image_entry_valid:
  assumes "valid_project p"
  shows "\<exists>p1. ensure_image_entry p f = Inr p1 \<and> valid_project p1 \<and>
           stored_tags p1 f = stored_tags p f \<and> global_tags p1 = global_tags p \<and>
           (\<exists>e. bindE (get_prop p1 ''images'') (\<lambda>i. get_prop i f) = Inr e \<and> valid_entry e)"
proof -
  from assms obtain ps es gs gps where p: "p = JObj ps" "lookup_own ps ''images'' = JObj es"
    "list_all (\<lambda>kv. valid_entry (snd kv)) es" "lookup_own ps ''tags'' = JArr gs gps"
    "list_all is_JStr gs" "distinct (map tag_key gs)"
    "is_JNum (lookup_own ps ''version'')" "is_JStr (lookup_own ps ''root'')" "is_JStr (lookup_own ps ''updatedAt'')"
    by (rule valid_projectE)
  from valid_entry_lookup[OF p(3), of f] show ?thesis
  proof
    assume u: "lookup_own es f = JUndefined"
    show ?thesis using p u
      by (simp add: ensure_image_entry_def bindE_def valid_project_def valid_images_def tag_list_def
          list_all_update stored_tags_def getTags_def global_tags_def getAllTags_def slice_def elements_def)
  next
    assume v: "valid_entry (lookup_own es f)"
    show ?thesis using p v valid_entry_truthy[OF v] assms
      by (simp add: ensure_image_entry_def bindE_def)
  qed
qed


lemma equalTag_key: "equalTag t (JStr tag) = (tag_key t = toLowerCase tag)"
  by (simp add: equalTag_def tag_key_def)

lemma list_ex_key: "list_ex (\<lambda>t. tag_key t = k) vs = (k \<in> set (map tag_key vs))"
  by (induction vs) auto

lemma valid_entry_lookup_tags:
  assumes "valid_entry e"
  obtains eps vs vps where "e = JObj eps" "lookup_own eps ''tags'' = JArr vs vps"
    "list_all is_JStr vs" "distinct (map tag_key vs)"
  using assms by (auto simp: valid_entry_def tag_list_def split: jsval.splits)

lemma push_if_absent_valid:
  assumes "valid_project p" and "bindE (get_prop p ''images'') (\<lambda>i. get_prop i f) = Inr e" and "valid_entry e"
  shows "\<exists>p2. push_if_absent p f tag = Inr p2 \<and> valid_project p2 \<and>
           stored_tags p2 f =
             (if toLowerCase tag \<in> set (map tag_key (stored_tags p f)) then stored_tags p f
              else stored_tags p f @ [JStr tag]) \<and>
           global_tags p2 = global_tags p"
proof -
  from assms(1) obtain ps es gs gps where p: "p = JObj ps" "lookup_own ps ''images'' = JObj es"
    "list_all (\<lambda>kv. valid_entry (snd kv)) es" "lookup_own ps ''tags'' = JArr gs gps"
    "list_all is_JStr gs" "distinct (map tag_key gs)"
    "is_JNum (lookup_own ps ''version'')" "is_JStr (lookup_own ps ''root'')" "is_JStr (lookup_own ps ''updatedAt'')"
    by (rule valid_projectE)
  from assms(2) p have e: "lookup_own es f = e" by (simp add: bindE_def)
  from assms(3) obtain eps vs vps where ev: "e = JObj eps" "lookup_own eps ''tags'' = JArr vs vps"
    "list_all is_JStr vs" "distinct (map tag_key vs)"
    by (rule valid_entry_lookup_tags)
  have st: "stored_tags p f = vs"
    using p e ev by (simp add: stored_tags_def getTags_def bindE_def slice_def elements_def)
  show ?thesis
  proof (cases "toLowerCase tag \<in> set (map tag_key vs)")
    case True
    then show ?thesis using p e ev st assms(1)
      by (simp add: push_if_absent_def bindE_def containsTag_def equalTag_key list_ex_key)
  next
    case False
    have k: "tag_key (JStr tag) = toLowerCase tag" by (simp add: tag_key_def)
    show ?thesis using p e ev st False k
      by (simp add: push_if_absent_def bindE_def containsTag_def equalTag_key list_ex_key push_def
          valid_project_def valid_images_def valid_entry_def tag_list_def list_all_update
          stored_tags_def getTags_def global_tags_def getAllTags_def slice_def elements_def)
  qed
qed

lemma upsertGlobalTag_valid:
  assumes "valid_project p"
  shows "\<exists>p3. upsertGlobalTag p tag = Inr p3 \<and> valid_project p3 \<and>
           stored_tags p3 f = stored_tags p f \<and>
           global_tags p3 =
             (if toLowerCase tag \<in> set (map tag_key (global_tags p)) then global_tags p
              else global_tags p @ [JStr tag])"
proof -
  from assms(1) obtain ps es gs gps where p: "p = JObj ps" "lookup_own ps ''images'' = JObj es"
    "list_all (\<lambda>kv. valid_entry (snd kv)) es" "lookup_own ps ''tags'' = JArr gs gps"
    "list_all is_JStr gs" "distinct (map tag_key gs)"
    "is_JNum (lookup_own ps ''version'')" "is_JStr (lookup_own ps ''root'')" "is_JStr (lookup_own ps ''updatedAt'')"
    by (rule valid_projectE)
  have g: "global_tags p = gs"
    using p by (simp add: global_tags_def getAllTags_def bindE_def slice_def elements_def)
  have k: "tag_key (JStr tag) = toLowerCase tag" by (simp add: tag_key_def)
  show ?thesis
  proof (cases "toLowerCase tag \<in> set (map tag_key gs)")
    case True
    then show ?thesis using p g assms
      by (simp add: upsertGlobalTag_def bindE_def containsTag_def equalTag_key list_ex_key)
  next
    case False
    then show ?thesis using p g k
      by (simp add: upsertGlobalTag_def bindE_def containsTag_def equalTag_key list_ex_key push_def
          valid_project_def valid_images_def tag_list_def
          stored_tags_def getTags_def global_tags_def getAllTags_def slice_def elements_def)
  qed
qed

lemma addTag_valid:
  assumes "valid_project p" and "normalizeTag raw \<noteq> []"
  shows "\<exists>p'. addTag p f raw = (p', None) \<and> valid_project p' \<and>
           stored_tags p' f =
             (if toLowerCase (normalizeTag raw) \<in> set (map tag_key (stored_tags p f)) then stored_tags p f
              else stored_tags p f @ [JStr (normalizeTag raw)]) \<and>
           global_tags p' =
             (if toLowerCase (normalizeTag raw) \<in> set (map tag_key (global_tags p)) then global_tags p
              else global_tags p @ [JStr (normalizeTag raw)])"
proof -
  from ensure_image_entry_valid[OF assms(1), of f] obtain p1 e where
    1: "ensure_image_entry p f = Inr p1" "valid_project p1" "stored_tags p1 f = stored_tags p f"
       "global_tags p1 = global_tags p" "bindE (get_prop p1 ''images'') (\<lambda>i. get_prop i f) = Inr e" "valid_entry e"
    by blast
  from push_if_absent_valid[OF 1(2) 1(5) 1(6), of "normalizeTag raw"] obtain p2 where
    2: "push_if_absent p1 f (normalizeTag raw) = Inr p2" "valid_project p2"
       "stored_tags p2 f =
             (if toLowerCase (normalizeTag raw) \<in> set (map tag_key (stored_tags p1 f)) then stored_tags p1 f
              else stored_tags p1 f @ [JStr (normalizeTag raw)])"
       "global_tags p2 = global_tags p1"
    by blast
  from upsertGlobalTag_valid[OF 2(2), of "normalizeTag raw" f] obtain p3 where
    3: "upsertGlobalTag p2 (normalizeTag raw) = Inr p3" "valid_project p3"
       "stored_tags p3 f = stored_tags p2 f"
       "global_tags p3 =
             (if toLowerCase (normalizeTag raw) \<in> set (map tag_key (global_tags p2)) then global_tags p2
              else global_tags p2 @ [JStr (normalizeTag raw)])"
    by blast
  have "addTag p f raw = (p3, None)"
    using assms(2) 1(1) 2(1) 3(1) by (simp add: addTag_def Let_def)
  then show ?thesis using 1 2 3 by simp
qed

lemma stored_tags_distinct:
  assumes "valid_project p"
  shows "distinct (map tag_key (stored_tags p f))"
proof -
  from assms obtain ps es where p: "p = JObj ps" "lookup_own ps ''images'' = JObj es"
    "list_all (\<lambda>kv. valid_entry (snd kv)) es"
    by (rule valid_projectE)
  from valid_entry_lookup[OF p(3), of f] show ?thesis
  proof
    assume "lookup_own es f = JUndefined"
    then show ?thesis using p
      by (simp add: stored_tags_def getTags_def bindE_def slice_def elements_def)
  next
    assume "valid_entry (lookup_own es f)"
    then obtain eps vs vps where "lookup_own es f = JObj eps" "lookup_own eps ''tags'' = JArr vs vps"
      "distinct (map tag_key vs)"
      by (rule valid_entry_lookup_tags)
    then show ?thesis using p
      by (simp add: stored_tags_def getTags_def bindE_def slice_def elements_def)
  qed
qed

lemma global_tags_distinct:
  assumes "valid_project p"
  shows "distinct (map tag_key (global_tags p))"
proof -
  from assms obtain ps gs gps where "p = JObj ps" "lookup_own ps ''tags'' = JArr gs gps"
    "distinct (map tag_key gs)"
    by (rule valid_projectE)
  then show ?thesis
    by (simp add: global_tags_def getAllTags_def bindE_def slice_def elements_def)
qed

lemma count_key_one:
  "distinct (map g vs) \<Longrightarrow> k \<in> set (map g vs) \<Longrightarrow> length (filter (\<lambda>t. g t = k) vs) = 1"
proof (induction vs)
  case Nil
  then show ?case by simp
next
  case (Cons v vs)
  show ?case
  proof (cases "g v = k")
    case True
    from Cons.prems have "g v \<notin> g ` set vs" by simp
    with True have "\<forall>t\<in>set vs. g t \<noteq> k" by blast
    then have "filter (\<lambda>t. g t = k) vs = []"
      by (simp add: filter_empty_conv)
    with True show ?thesis by simp
  next
    case False
    with Cons show ?thesis by auto
  qed
qed

text \<open>
  C4 (amended). On a project of the documented shape, adding two tag strings whose
  normalised forms are non-empty and equal up to letter case to the same photo succeeds
  twice, keeps the project well-shaped, and leaves exactly one tag of that
  case-insensitive value in the photo's tag list and exactly one in the global tag list.
  When the photo did not carry the tag before, the stored tag is the normalised first
  string, appended to the photo's earlier tags, so the casing typed first is kept.
  Normalisation and letter case are those of the section on strings: a no-break space is
  trimmed like a space, and an accented letter of Latin-1 has its lower-case form.
\<close>

theorem addTag_twice_one_stored_tag:
  assumes "valid_project p"
    and "normalizeTag (JStr t1) \<noteq> []"
    and "toLowerCase (normalizeTag (JStr t1)) = toLowerCase (normalizeTag (JStr t2))"
  shows "\<exists>p1 p2. addTag p f (JStr t1) = (p1, None) \<and> addTag p1 f (JStr t2) = (p2, None) \<and>
           valid_project p2 \<and>
           length (filter (\<lambda>t. equalTag t (JStr (normalizeTag (JStr t1)))) (stored_tags p2 f)) = 1 \<and>
           length (filter (\<lambda>t. equalTag t (JStr (normalizeTag (JStr t1)))) (global_tags p2)) = 1 \<and>
           stored_tags p2 f =
             (if list_ex (\<lambda>t. equalTag t (JStr (normalizeTag (JStr t1)))) (stored_tags p f)
              then stored_tags p f
              else stored_tags p f @ [JStr (normalizeTag (JStr t1))])"
proof -
  let ?n1 = "normalizeTag (JStr t1)" and ?n2 = "normalizeTag (JStr t2)"
  have k: "tag_key (JStr ?n1) = toLowerCase ?n1" by (simp add: tag_key_def)
  from assms(2,3) have n2: "?n2 \<noteq> []" by (auto simp: toLowerCase_def)
  from addTag_valid[OF assms(1,2), of f] obtain p1 where
    1: "addTag p f (JStr t1) = (p1, None)" "valid_project p1"
       "stored_tags p1 f =
             (if toLowerCase ?n1 \<in> set (map tag_key (stored_tags p f)) then stored_tags p f
              else stored_tags p f @ [JStr ?n1])"
       "global_tags p1 =
             (if toLowerCase ?n1 \<in> set (map tag_key (global_tags p)) then global_tags p
              else global_tags p @ [JStr ?n1])"
    by blast
  have in1: "toLowerCase ?n1 \<in> set (map tag_key (stored_tags p1 f))"
    and ing1: "toLowerCase ?n1 \<in> set (map tag_key (global_tags p1))"
    using 1(3,4) k by (auto split: if_splits)
  from addTag_valid[OF 1(2) n2, of f] obtain p2 where
    2: "addTag p1 f (JStr t2) = (p2, None)" "valid_project p2"
       "stored_tags p2 f =
             (if toLowerCase ?n2 \<in> set (map tag_key (stored_tags p1 f)) then stored_tags p1 f
              else stored_tags p1 f @ [JStr ?n2])"
       "global_tags p2 =
             (if toLowerCase ?n2 \<in> set (map tag_key (global_tags p1)) then global_tags p1
              else global_tags p1 @ [JStr ?n2])"
    by blast
  from 2(3) in1 assms(3) have s2: "stored_tags p2 f = stored_tags p1 f" by simp
  from 2(4) ing1 assms(3) have g2: "global_tags p2 = global_tags p1" by simp
  have c1: "length (filter (\<lambda>t. equalTag t (JStr ?n1)) (stored_tags p2 f)) = 1"
    unfolding equalTag_key using count_key_one[OF stored_tags_distinct[OF 2(2), of f]] in1 s2 by simp
  have c2: "length (filter (\<lambda>t. equalTag t (JStr ?n1)) (global_tags p2)) = 1"
    unfolding equalTag_key using count_key_one[OF global_tags_distinct[OF 2(2)]] ing1 g2 by simp
  have s: "stored_tags p2 f =
             (if list_ex (\<lambda>t. equalTag t (JStr ?n1)) (stored_tags p f)
              then stored_tags p f else stored_tags p f @ [JStr ?n1])"
    using s2 1(3) by (simp add: equalTag_key list_ex_key)
  from 1(1) 2(1) 2(2) c1 c2 s show ?thesis by blast
qed

theorem addTag_twice_one_stored_tag_witness:
  "valid_project (newProject ''2026-01-01T00:00:00.000Z'') \<and>
   normalizeTag (JStr (CHR 0xA0 # ''Caf'' @ [CHR 0xE9])) \<noteq> [] \<and>
   toLowerCase (normalizeTag (JStr (CHR 0xA0 # ''Caf'' @ [CHR 0xE9]))) =
     toLowerCase (normalizeTag (JStr (''CAF'' @ [CHR 0xC9, CHR 0x20, CHR 0x20]))) \<and>
   (\<exists>p1 p2. addTag (newProject ''2026-01-01T00:00:00.000Z'') ''img001.jpg''
                (JStr (CHR 0xA0 # ''Caf'' @ [CHR 0xE9])) = (p1, None) \<and>
      addTag p1 ''img001.jpg'' (JStr (''CAF'' @ [CHR 0xC9, CHR 0x20, CHR 0x20])) = (p2, None) \<and>
      stored_tags p2 ''img001.jpg'' = [JStr (''Caf'' @ [CHR 0xE9])] \<and>
      global_tags p2 = [JStr (''Caf'' @ [CHR 0xE9])])"
proof -
  let ?t1 = "CHR 0xA0 # ''Caf'' @ [CHR 0xE9]" and ?t2 = "''CAF'' @ [CHR 0xC9, CHR 0x20, CHR 0x20]"
  have v: "valid_project (newProject ''2026-01-01T00:00:00.000Z'')"
    by code_simp
  have n: "normalizeTag (JStr ?t1) \<noteq> []"
    by code_simp
  have e: "toLowerCase (normalizeTag (JStr ?t1)) = toLowerCase (normalizeTag (JStr ?t2))"
    by code_simp
  from addTag_twice_one_stored_tag[OF v n e, of "''img001.jpg''"] obtain p1 p2 where
    a: "addTag (newProject ''2026-01-01T00:00:00.000Z'') ''img001.jpg'' (JStr ?t1) = (p1, None)"
       "addTag p1 ''img001.jpg'' (JStr ?t2) = (p2, None)"
    by blast
  have 1: "p1 = fst (addTag (newProject ''2026-01-01T00:00:00.000Z'') ''img001.jpg'' (JStr ?t1))"
    using a(1) by simp
  have 2: "p2 = fst (addTag p1 ''img001.jpg'' (JStr ?t2))" using a(2) by simp
  have "stored_tags p2 ''img001.jpg'' = [JStr (''Caf'' @ [CHR 0xE9])] \<and>
        global_tags p2 = [JStr (''Caf'' @ [CHR 0xE9])]"
    unfolding 2 1 by code_simp
  with v n e a show ?thesis by blast
qed

theorem addTag_blank_counterexample:
  "toLowerCase (normalizeTag (JStr [CHR 0xA0])) = toLowerCase (normalizeTag (JStr [CHR 0x20, CHR 0x09])) \<and>
   stored_tags (fst (addTag (fst (addTag (newProject ''2026-01-01T00:00:00.000Z'') ''img001.jpg'' (JStr [CHR 0xA0])))
       ''img001.jpg'' (JStr [CHR 0x20, CHR 0x09]))) ''img001.jpg'' = []"
  by code_simp

section \<open>Properties of the export plan\<close>

lemma count_tag_counts [simp]:
  "total (count_tag t pl) = total pl" "tagged (count_tag t pl) = tagged pl"
  "untagged (count_tag t pl) = untagged pl" "moves (count_tag t pl) = moves pl"
  "links (count_tag t pl) = links pl"
  by (simp_all add: count_tag_def)

lemma fold_count_tag_counts [simp]:
  "total (fold count_tag ts pl) = total pl" "tagged (fold count_tag ts pl) = tagged pl"
  "untagged (fold count_tag ts pl) = untagged pl" "moves (fold count_tag ts pl) = moves pl"
  "links (fold count_tag ts pl) = links pl"
  by (induction ts arbitrary: pl) simp_all

lemma plan_links_counts:
  "plan_links eroot f d ts fs pl = (fs', Inr pl') \<Longrightarrow>
     total pl' = total pl \<and> tagged pl' = tagged pl \<and> untagged pl' = untagged pl \<and> moves pl' = moves pl"
proof (induction ts arbitrary: fs pl)
  case Nil
  then show ?case by simp
next
  case (Cons t ts)
  from Cons.prems obtain fs1 where
    r: "plan_links eroot f d ts fs1
          (pl\<lparr>links := links pl @ [(d, uniquePath fs1 ((eroot @ [safeTagToFolder t]) @ [f]))]\<rparr>) = (fs', Inr pl')"
    by (auto simp: Let_def split: sum.splits)
  from Cons.IH[OF r] show ?case by simp
qed

lemma plan_photo_counts:
  assumes "plan_photo project src eroot f fs pl = (fs', Inr pl')"
  shows "total pl' = total pl \<and> tagged pl' + untagged pl' = tagged pl + untagged pl + 1"
  using assms
  by (auto simp: plan_photo_def Let_def split: sum.splits if_splits prod.splits dest!: plan_links_counts)

lemma plan_photos_counts:
  "plan_photos project src eroot fs0 fs pl = (fs', Inr pl') \<Longrightarrow>
     total pl' = total pl \<and> tagged pl' + untagged pl' = tagged pl + untagged pl + length fs0"
proof (induction fs0 arbitrary: fs pl)
  case Nil
  then show ?case by simp
next
  case (Cons f rest)
  from Cons.prems obtain fs1 pl1 where
    1: "plan_photo project src eroot f fs pl = (fs1, Inr pl1)"
    and 2: "plan_photos project src eroot rest fs1 pl1 = (fs', Inr pl')"
    by (auto split: prod.splits sum.splits)
  from plan_photo_counts[OF 1] Cons.IH[OF 2] show ?case by simp
qed

text \<open>
  C10. Whenever \<open>buildExportPlan\<close> produces a plan, its counters satisfy
  tagged + untagged = total. With a project loaded, total is the number of scanned
  photos, so each scanned photo is counted in exactly one of the two categories; with no
  project loaded the plan is the empty one and the three counters are 0.
\<close>

theorem buildExportPlan_counts:
  assumes "buildExportPlan a fs exportRoot = (fs', Inr pl)"
  shows "tagged pl + untagged pl = total pl \<and>
         total pl = (if project_loaded a then length (photos a) else 0)"
proof (cases "project_loaded a")
  case False
  with assms have "pl = empty_plan"
    by (auto simp: buildExportPlan_def project_loaded_def split: option.splits if_splits)
  with False show ?thesis by (simp add: empty_plan_def)
next
  case True
  then obtain pm where pm: "projectManager a = Some pm" "truthy (pm_project pm)"
    by (auto simp: project_loaded_def split: option.splits)
  with assms have "plan_photos (pm_project pm) (sourceFolder a) exportRoot (map basename (photos a)) fs
      (empty_plan\<lparr>total := length (map basename (photos a))\<rparr>) = (fs', Inr pl)"
    by (simp add: buildExportPlan_def Let_def)
  from plan_photos_counts[OF this] True show ?thesis by (simp add: empty_plan_def)
qed

theorem buildExportPlan_counts_witness:
  "(\<exists>fs' pl. buildExportPlan scenario_app scenario_fs [''photos''] = (fs', Inr pl) \<and>
      tagged pl = 2 \<and> untagged pl = 0 \<and> total pl = 2 \<and> tagged pl + untagged pl = total pl \<and>
      total pl = length (photos scenario_app)) \<and> project_loaded scenario_app"
proof -
  obtain fs' r where b: "buildExportPlan scenario_app scenario_fs [''photos''] = (fs', r)"
    by (cases "buildExportPlan scenario_app scenario_fs [''photos'']")
  have r: "r = snd (buildExportPlan scenario_app scenario_fs [''photos''])" using b by simp
  have "case r of Inr pl \<Rightarrow> tagged pl = 2 \<and> untagged pl = 0 \<and> total pl = 2 | Inl e \<Rightarrow> False"
    unfolding r by code_simp
  then obtain pl where pl: "r = Inr pl" "tagged pl = 2" "untagged pl = 0" "total pl = 2"
    by (cases r) auto
  have l: "project_loaded scenario_app" by code_simp
  from buildExportPlan_counts[OF b[unfolded pl(1)]] l pl b show ?thesis by auto
qed

text \<open>
  C9. In the scenario of the specification (tags Yes, Maybe on img001.jpg and Yes on
  img002.jpg, an export eroot that holds no tag folder yet) the plan moves both photos
  into the Yes folder, links Maybe/img001.jpg from the move destination
  Yes/img001.jpg, and reports tagged = 2, untagged = 0, perTag = {Yes: 2, Maybe: 1}.
\<close>

theorem buildExportPlan_scenario:
  "snd (buildExportPlan scenario_app scenario_fs [''photos'']) =
     Inr \<lparr>total = 2, tagged = 2, untagged = 0,
          perTag = [(''Yes'', 2), (''Maybe'', 1)],
          moves = [([''photos'', ''img001.jpg''], [''photos'', ''Yes'', ''img001.jpg'']),
                   ([''photos'', ''img002.jpg''], [''photos'', ''Yes'', ''img002.jpg''])],
          links = [([''photos'', ''Yes'', ''img001.jpg''], [''photos'', ''Maybe'', ''img001.jpg''])]\<rparr>"
  by code_simp

section \<open>What planning does to the file system\<close>

lemma only_dirs_added_refl [simp]: "only_dirs_added fs fs"
  by (simp add: only_dirs_added_def)

lemma only_dirs_added_trans:
  assumes "only_dirs_added fs1 fs2" and "only_dirs_added fs2 fs3"
  shows "only_dirs_added fs1 fs3"
proof -
  have "lookup fs3 q = lookup fs1 q \<or> (lookup fs1 q = None \<and> lookup fs3 q = Some Dir)" for q
  proof -
    from assms(1) have a: "lookup fs2 q = lookup fs1 q \<or> (lookup fs1 q = None \<and> lookup fs2 q = Some Dir)"
      by (simp add: only_dirs_added_def)
    from assms(2) have b: "lookup fs3 q = lookup fs2 q \<or> (lookup fs2 q = None \<and> lookup fs3 q = Some Dir)"
      by (simp add: only_dirs_added_def)
    from a b show ?thesis by auto
  qed
  with assms show ?thesis by (simp add: only_dirs_added_def)
qed

lemma add_dirs_lookup:
  "map_of (add_dirs ds ns) q = map_of ns q \<or> (map_of ns q = None \<and> map_of (add_dirs ds ns) q = Some Dir)"
proof (induction ds arbitrary: ns)
  case Nil
  then show ?case by simp
next
  case (Cons d ds)
  let ?ns = "if map_of ns d = None then ns @ [(d, Dir)] else ns"
  have step: "map_of ?ns q = map_of ns q \<or> (map_of ns q = None \<and> map_of ?ns q = Some Dir)"
    by (cases "map_of ns q") (auto simp: map_add_def)
  from Cons.IH[of ?ns] have ih:
    "map_of (add_dirs ds ?ns) q = map_of ?ns q \<or> (map_of ?ns q = None \<and> map_of (add_dirs ds ?ns) q = Some Dir)" .
  have e: "add_dirs (d # ds) ns = add_dirs ds ?ns" by simp
  from ih step show ?case unfolding e by auto
qed

lemma mkdirSync_recursive_only_dirs:
  "mkdirSync_recursive fs p = Inr fs' \<Longrightarrow> only_dirs_added fs fs'"
proof -
  assume a: "mkdirSync_recursive fs p = Inr fs'"
  then have "fs' = fs \<or> fs' = fs\<lparr>nodes := add_dirs (ancestors p) (nodes fs)\<rparr>"
    by (auto simp: mkdirSync_recursive_def split: if_splits)
  then show ?thesis
  proof
    assume "fs' = fs"
    then show ?thesis by simp
  next
    assume e: "fs' = fs\<lparr>nodes := add_dirs (ancestors p) (nodes fs)\<rparr>"
    have "lookup fs' q = lookup fs q \<or> (lookup fs q = None \<and> lookup fs' q = Some Dir)" for q
      using add_dirs_lookup[of "ancestors p" "nodes fs" q] e by (simp add: lookup_def)
    with e show ?thesis by (simp add: only_dirs_added_def)
  qed
qed

lemma ensureDirSync_only_dirs:
  "ensureDirSync fs p = Inr fs' \<Longrightarrow> only_dirs_added fs fs'"
  by (auto simp: ensureDirSync_def split: if_splits dest: mkdirSync_recursive_only_dirs)

lemma plan_links_only_dirs:
  "only_dirs_added fs (fst (plan_links eroot f d ts fs pl))"
proof (induction ts arbitrary: fs pl)
  case Nil
  then show ?case by simp
next
  case (Cons t ts)
  show ?case
  proof (cases "ensureDirSync fs (eroot @ [safeTagToFolder t])")
    case (Inl e)
    then show ?thesis by (simp add: Let_def)
  next
    case (Inr fs1)
    from ensureDirSync_only_dirs[OF Inr] Cons.IH[of fs1] Inr show ?thesis
      by (auto simp: Let_def intro: only_dirs_added_trans)
  qed
qed

lemma plan_photo_only_dirs:
  "only_dirs_added fs (fst (plan_photo project src eroot f fs pl))"
proof (cases "bindE (get_prop project ''images'') (\<lambda>images. get_prop images f)")
  case (Inl e)
  then show ?thesis by (simp add: plan_photo_def)
next
  case (Inr entry)
  define tags where "tags = (if isArray (opt_chain entry ''tags'') then elements (opt_chain entry ''tags'') else [])"
  show ?thesis
  proof (cases "length tags = 0")
    case True
    with Inr show ?thesis by (simp add: plan_photo_def Let_def tags_def)
  next
    case False
    let ?d = "eroot @ [safeTagToFolder (hd tags)]"
    show ?thesis
    proof (cases "ensureDirSync fs ?d")
      case (Inl e)
      with Inr False show ?thesis by (simp add: plan_photo_def Let_def tags_def)
    next
      case fs1: (Inr fs1)
      let ?pl2 = "pl\<lparr>tagged := tagged pl + 1\<rparr>\<lparr>moves := moves (pl\<lparr>tagged := tagged pl + 1\<rparr>) @ [(src @ [f], uniquePath fs1 (?d @ [f]))]\<rparr>"
      obtain fs2 r where l: "plan_links eroot f (uniquePath fs1 (?d @ [f])) (tl tags) fs1 ?pl2 = (fs2, r)"
        by (cases "plan_links eroot f (uniquePath fs1 (?d @ [f])) (tl tags) fs1 ?pl2")
      from plan_links_only_dirs[of fs1 eroot f "uniquePath fs1 (?d @ [f])" "tl tags" ?pl2] l
      have "only_dirs_added fs1 fs2" by simp
      with ensureDirSync_only_dirs[OF fs1] have t: "only_dirs_added fs fs2" by (rule only_dirs_added_trans)
      have "fst (plan_photo project src eroot f fs pl) = fs2"
        using Inr False fs1 l by (cases r) (simp_all add: plan_photo_def Let_def tags_def)
      with t show ?thesis by simp
    qed
  qed
qed

lemma plan_photos_only_dirs:
  "only_dirs_added fs (fst (plan_photos project src eroot names fs pl))"
proof (induction names arbitrary: fs pl)
  case Nil
  then show ?case by simp
next
  case (Cons f rest)
  obtain fs1 r where s: "plan_photo project src eroot f fs pl = (fs1, r)"
    by (cases "plan_photo project src eroot f fs pl")
  from plan_photo_only_dirs[of fs project src eroot f pl] s have 1: "only_dirs_added fs fs1" by simp
  show ?case
  proof (cases r)
    case (Inl e)
    with s 1 show ?thesis by simp
  next
    case (Inr pl1)
    with s 1 Cons.IH[of fs1 pl1] show ?thesis by (auto intro: only_dirs_added_trans)
  qed
qed

lemma buildExportPlan_only_dirs:
  "only_dirs_added fs (fst (buildExportPlan a fs eroot))"
  by (auto simp: buildExportPlan_def Let_def plan_photos_only_dirs split: option.splits)

text \<open>
  C1 (amended). Computing an export plan, through the dry-run handler or by
  \<open>buildExportPlan\<close> itself, can create directories that were missing (the export root
  and the tag folders) and changes nothing else: every path holds the node it held
  before, or held nothing and is now a directory. No file is created, moved, rewritten
  or removed.
\<close>

theorem export_dry_run_only_adds_directories:
  "only_dirs_added fs (fst (export_dry_run a fs exportRootArg)) \<and>
   only_dirs_added fs (fst (buildExportPlan a fs exportRoot))"
proof
  show "only_dirs_added fs (fst (buildExportPlan a fs exportRoot))"
    by (rule buildExportPlan_only_dirs)
  let ?r = "case exportRootArg of Some r \<Rightarrow> r | None \<Rightarrow> sourceFolder a"
  show "only_dirs_added fs (fst (export_dry_run a fs exportRootArg))"
  proof (cases "ensureDirSync fs ?r")
    case (Inl e)
    then show ?thesis by (simp add: export_dry_run_def Let_def)
  next
    case (Inr fs1)
    obtain fs2 r where b: "buildExportPlan a fs1 ?r = (fs2, r)" by (cases "buildExportPlan a fs1 ?r")
    from buildExportPlan_only_dirs[of fs1 a ?r] b have "only_dirs_added fs1 fs2" by simp
    with ensureDirSync_only_dirs[OF Inr] have "only_dirs_added fs fs2" by (rule only_dirs_added_trans)
    with Inr b show ?thesis by (cases r) (simp_all add: export_dry_run_def Let_def)
  qed
qed

theorem export_dry_run_mutates_counterexample:
  "lookup scenario_fs [''photos'', ''Yes''] = None \<and>
   lookup (fst (export_dry_run scenario_app scenario_fs None)) [''photos'', ''Yes''] = Some Dir \<and>
   fst (export_dry_run scenario_app scenario_fs None) \<noteq> scenario_fs"
proof -
  have 1: "lookup scenario_fs [''photos'', ''Yes''] = None" by code_simp
  have 2: "lookup (fst (export_dry_run scenario_app scenario_fs None)) [''photos'', ''Yes''] = Some Dir"
    by code_simp
  from 1 2 have "fst (export_dry_run scenario_app scenario_fs None) \<noteq> scenario_fs" by auto
  with 1 2 show ?thesis by simp
qed

section \<open>Export execution\<close>











lemma pair_collapse: "fst x = a \<Longrightarrow> snd x = b \<Longrightarrow> x = (a, b)"
  by auto


section \<open>Loading and creating the project\<close>

lemma images_of_JObj: "lookup_own ps ''images'' = JObj es \<Longrightarrow> images_of (JObj ps) = es"
  by (simp add: images_of_def)

lemma ensure_image_entry_images:
  assumes "valid_project p"
  shows "\<exists>p1. ensure_image_entry p f = Inr p1 \<and> valid_project p1 \<and>
           (\<forall>k. lookup_own (images_of p1) k =
              (if k = f \<and> lookup_own (images_of p) f = JUndefined then empty_entry
               else lookup_own (images_of p) k))"
proof -
  from assms obtain ps es gs gps where p: "p = JObj ps" "lookup_own ps ''images'' = JObj es"
    "list_all (\<lambda>kv. valid_entry (snd kv)) es" "lookup_own ps ''tags'' = JArr gs gps"
    "list_all is_JStr gs" "distinct (map tag_key gs)"
    "is_JNum (lookup_own ps ''version'')" "is_JStr (lookup_own ps ''root'')" "is_JStr (lookup_own ps ''updatedAt'')"
    by (rule valid_projectE)
  from valid_entry_lookup[OF p(3), of f] show ?thesis
  proof
    assume u: "lookup_own es f = JUndefined"
    show ?thesis using p u
      by (simp add: ensure_image_entry_def bindE_def valid_project_def valid_images_def tag_list_def
          list_all_update images_of_def)
  next
    assume v: "valid_entry (lookup_own es f)"
    then have "lookup_own es f \<noteq> JUndefined" by (auto simp: valid_entry_def)
    then show ?thesis using p v valid_entry_truthy[OF v] assms
      by (simp add: ensure_image_entry_def bindE_def images_of_def)
  qed
qed

lemma merge_images_valid:
  "valid_project p \<Longrightarrow>
   \<exists>p'. merge_images p names = Inr p' \<and> valid_project p' \<and>
     (\<forall>k. lookup_own (images_of p') k =
        (if lookup_own (images_of p) k \<noteq> JUndefined then lookup_own (images_of p) k
         else if k \<in> set names then empty_entry else JUndefined))"
proof (induction names arbitrary: p)
  case Nil
  then show ?case by simp
next
  case (Cons f rest)
  from ensure_image_entry_images[OF Cons.prems, of f] obtain p1 where
    1: "ensure_image_entry p f = Inr p1" "valid_project p1"
       "\<forall>k. lookup_own (images_of p1) k =
              (if k = f \<and> lookup_own (images_of p) f = JUndefined then empty_entry
               else lookup_own (images_of p) k)"
    by blast
  from Cons.IH[OF 1(2)] obtain p' where
    2: "merge_images p1 rest = Inr p'" "valid_project p'"
       "\<forall>k. lookup_own (images_of p') k =
        (if lookup_own (images_of p1) k \<noteq> JUndefined then lookup_own (images_of p1) k
         else if k \<in> set rest then empty_entry else JUndefined)"
    by blast
  have e: "empty_entry \<noteq> JUndefined" by (simp add: empty_entry_def)
  have "merge_images p (f # rest) = Inr p'" using 1(1) 2(1) by (simp add: bindE_def)
  moreover have "\<forall>k. lookup_own (images_of p') k =
        (if lookup_own (images_of p) k \<noteq> JUndefined then lookup_own (images_of p) k
         else if k \<in> set (f # rest) then empty_entry else JUndefined)"
    using 1(3) 2(3) e by auto
  ultimately show ?case using 2(2) by blast
qed

lemma set_updatedAt_valid:
  assumes "valid_project p"
  shows "\<exists>p2. set_prop p ''updatedAt'' (JStr s) = Inr p2 \<and> valid_project p2 \<and> images_of p2 = images_of p"
proof -
  from assms obtain ps where "p = JObj ps" by (auto simp: valid_project_def split: jsval.splits)
  with assms show ?thesis by (simp add: valid_project_def images_of_def)
qed

lemma newProject_valid [simp]: "valid_project (newProject s)"
  by (simp add: newProject_def valid_project_def valid_images_def tag_list_def lookup_own_def)

lemma loadOrCreate_project:
  "pm_project (fst (loadOrCreate pm fs clk paths)) =
     (case snd (loadOrCreate_try pm fs clk paths) of Inr p \<Rightarrow> p | Inl e \<Rightarrow> newProject (iso_now clk))"
  by (cases "loadOrCreate_try pm fs clk paths") (auto simp: loadOrCreate_def split: sum.splits)

lemma ensureProjectDir_only_dirs:
  "ensureProjectDir fs pm = Inr fs1 \<Longrightarrow> only_dirs_added fs fs1"
  by (auto simp: ensureProjectDir_def split: if_splits dest: mkdirSync_recursive_only_dirs)

text \<open>
  C5 (amended). When the project file holds a well-shaped project and
  \<open>loadOrCreate\<close> meets no internal error (the project directory exists or can be
  created and the atomic write succeeds), the returned project is the merge: every
  file name present in \<open>images\<close> keeps its entry unchanged, every discovered file name
  not present before maps to an entry with an empty tag list, and no other entry is
  added or removed.
\<close>

theorem loadOrCreate_merge_only:
  assumes "lookup fs (projectFilePath pm) = Some (File (Json p) t)"
    and "valid_project p"
    and "loadOrCreate_try pm fs clk paths = (fs', Inr p')"
  shows "pm_project (fst (loadOrCreate pm fs clk paths)) = p' \<and>
         (\<forall>k. lookup_own (images_of p') k =
            (if lookup_own (images_of p) k \<noteq> JUndefined then lookup_own (images_of p) k
             else if k \<in> set (discovered paths) then empty_entry else JUndefined))"
proof -
  from assms(3) obtain fs1 where d: "ensureProjectDir fs pm = Inr fs1"
    by (cases "ensureProjectDir fs pm") (auto simp: loadOrCreate_try_def)
  from ensureProjectDir_only_dirs[OF d]
  have "lookup fs1 (projectFilePath pm) = lookup fs (projectFilePath pm) \<or>
        (lookup fs (projectFilePath pm) = None \<and> lookup fs1 (projectFilePath pm) = Some Dir)"
    by (simp add: only_dirs_added_def)
  with assms(1) have l: "lookup fs1 (projectFilePath pm) = Some (File (Json p) t)"
    by auto
  from assms(2) have t: "truthy p" "typeof_object p"
    by (auto simp: valid_project_def split: jsval.splits)
  have loaded: "(if existsSync fs1 (projectFilePath pm) then
                    (let parsed = safeReadJson fs1 (projectFilePath pm) in
                     if \<not> truthy parsed \<or> \<not> typeof_object parsed then newProject (iso_now clk) else parsed)
                  else newProject (iso_now clk)) = p"
    using l t by (simp add: existsSync_def safeReadJson_def readFileSync_def)
  from merge_images_valid[OF assms(2), of "discovered paths"] obtain m where
    m: "merge_images p (discovered paths) = Inr m" "valid_project m"
       "\<forall>k. lookup_own (images_of m) k =
        (if lookup_own (images_of p) k \<noteq> JUndefined then lookup_own (images_of p) k
         else if k \<in> set (discovered paths) then empty_entry else JUndefined)"
    by blast
  from set_updatedAt_valid[OF m(2), of "iso_now clk"] obtain p2 where
    u: "set_prop m ''updatedAt'' (JStr (iso_now clk)) = Inr p2" "images_of p2 = images_of m"
    by blast
  from assms(3) d loaded m(1) u(1) have "p' = p2"
    by (auto simp: loadOrCreate_try_def bindE_def discovered_def split: prod.splits option.splits)
  with m(3) u(2) loadOrCreate_project[of pm fs clk paths] assms(3) show ?thesis by simp
qed


theorem loadOrCreate_merge_only_witness:
  "lookup stored_fs (projectFilePath closed_manager) = Some (File (Json scenario_project) 4) \<and>
   valid_project scenario_project \<and>
   (\<exists>fs' p'. loadOrCreate_try closed_manager stored_fs later three_photos = (fs', Inr p') \<and>
      pm_project (fst (loadOrCreate closed_manager stored_fs later three_photos)) = p' \<and>
      lookup_own (images_of p') ''img001.jpg'' = JObj [(''tags'', JArr [JStr ''Yes'', JStr ''Maybe''] [])] \<and>
      lookup_own (images_of p') ''img003.jpg'' = JObj [(''tags'', JArr [] [])] \<and>
      lookup_own (images_of p') ''img004.jpg'' = JUndefined)"
proof -
  let ?t = "loadOrCreate_try closed_manager stored_fs later three_photos"
  have l: "lookup stored_fs (projectFilePath closed_manager) = Some (File (Json scenario_project) 4)"
    by code_simp
  have v: "valid_project scenario_project" by code_simp
  have "case snd ?t of Inr p \<Rightarrow> True | Inl e \<Rightarrow> False" by code_simp
  then obtain p' where p': "snd ?t = Inr p'" by (cases "snd ?t") simp_all
  have t: "?t = (fst ?t, Inr p')" by (rule pair_collapse[OF refl p'])
  note m = loadOrCreate_merge_only[OF l v t]
  have a1: "lookup_own (images_of scenario_project) ''img001.jpg''
      = JObj [(''tags'', JArr [JStr ''Yes'', JStr ''Maybe''] [])]" by code_simp
  have a3: "lookup_own (images_of scenario_project) ''img003.jpg'' = JUndefined" by code_simp
  have a4: "lookup_own (images_of scenario_project) ''img004.jpg'' = JUndefined" by code_simp
  have d3: "''img003.jpg'' \<in> set (discovered three_photos)" by code_simp
  have d4: "''img004.jpg'' \<notin> set (discovered three_photos)" by code_simp
  have e: "empty_entry = JObj [(''tags'', JArr [] [])]" by (simp add: empty_entry_def)
  from m have k: "lookup_own (images_of p') k =
            (if lookup_own (images_of scenario_project) k \<noteq> JUndefined
             then lookup_own (images_of scenario_project) k
             else if k \<in> set (discovered three_photos) then empty_entry else JUndefined)" for k
    by blast
  have r1: "lookup_own (images_of p') ''img001.jpg'' = JObj [(''tags'', JArr [JStr ''Yes'', JStr ''Maybe''] [])]"
    unfolding k[of "''img001.jpg''"] a1 by simp
  have r3: "lookup_own (images_of p') ''img003.jpg'' = JObj [(''tags'', JArr [] [])]"
    unfolding k[of "''img003.jpg''"] a3 using d3 e by simp
  have r4: "lookup_own (images_of p') ''img004.jpg'' = JUndefined"
    unfolding k[of "''img004.jpg''"] a4 using d4 by simp
  from m have r0: "pm_project (fst (loadOrCreate closed_manager stored_fs later three_photos)) = p'"
    by blast
  have "\<exists>fs' p'. loadOrCreate_try closed_manager stored_fs later three_photos = (fs', Inr p') \<and>
      pm_project (fst (loadOrCreate closed_manager stored_fs later three_photos)) = p' \<and>
      lookup_own (images_of p') ''img001.jpg'' = JObj [(''tags'', JArr [JStr ''Yes'', JStr ''Maybe''] [])] \<and>
      lookup_own (images_of p') ''img003.jpg'' = JObj [(''tags'', JArr [] [])] \<and>
      lookup_own (images_of p') ''img004.jpg'' = JUndefined"
    by (intro exI[of _ "fst ?t"] exI[of _ p'] conjI t r0 r1 r3 r4)
  with l v show ?thesis by (intro conjI)
qed

theorem loadOrCreate_readonly_counterexample:
  "lookup readonly_fs (projectFilePath closed_manager) = Some (File (Json scenario_project) 4) \<and>
   valid_project scenario_project \<and>
   lookup_own (images_of scenario_project) ''img001.jpg''
     = JObj [(''tags'', JArr [JStr ''Yes'', JStr ''Maybe''] [])] \<and>
   lookup_own (images_of (pm_project (fst (loadOrCreate closed_manager readonly_fs later three_photos))))
     ''img001.jpg'' = JUndefined \<and>
   lookup_own (images_of (pm_project (fst (loadOrCreate closed_manager readonly_fs later three_photos))))
     ''img003.jpg'' = JUndefined"
proof -
  have 1: "lookup readonly_fs (projectFilePath closed_manager) = Some (File (Json scenario_project) 4)"
    by code_simp
  have 2: "valid_project scenario_project" by code_simp
  have 3: "lookup_own (images_of scenario_project) ''img001.jpg''
     = JObj [(''tags'', JArr [JStr ''Yes'', JStr ''Maybe''] [])]" by code_simp
  have 4: "lookup_own (images_of (pm_project (fst (loadOrCreate closed_manager readonly_fs later three_photos))))
     ''img001.jpg'' = JUndefined" by code_simp
  have 5: "lookup_own (images_of (pm_project (fst (loadOrCreate closed_manager readonly_fs later three_photos))))
     ''img003.jpg'' = JUndefined" by code_simp
  show ?thesis by (intro conjI 1 2 3 4 5)
qed





section \<open>The order of the photos\<close>

lemma mset_insert_by: "mset (insert_by le x xs) = add_mset x (mset xs)"
  by (induction xs) auto

lemma mset_sort_by: "mset (sort_by le xs) = mset xs"
  by (induction xs) (auto simp: sort_by_def mset_insert_by)

lemma set_insert_by: "set (insert_by le x xs) = insert x (set xs)"
  by (induction xs) auto

lemma sorted_insert_by:
  assumes total: "\<And>a b. le a b \<or> le b a"
    and trans: "\<And>a b c. le a b \<Longrightarrow> le b c \<Longrightarrow> le a c"
  shows "sorted_wrt le xs \<Longrightarrow> sorted_wrt le (insert_by le x xs)"
proof (induction xs)
  case Nil
  then show ?case by simp
next
  case (Cons y ys)
  show ?case
  proof (cases "le x y")
    case True
    with Cons.prems trans show ?thesis by auto
  next
    case False
    with total have "le y x" by blast
    with Cons False show ?thesis by (auto simp: set_insert_by)
  qed
qed

lemma sorted_sort_by:
  assumes total: "\<And>a b. le a b \<or> le b a"
    and trans: "\<And>a b c. le a b \<Longrightarrow> le b c \<Longrightarrow> le a c"
  shows "sorted_wrt le (sort_by le xs)"
proof (induction xs)
  case Nil
  then show ?case by (simp add: sort_by_def)
next
  case (Cons x xs)
  have "sort_by le (x # xs) = insert_by le x (sort_by le xs)" by (simp add: sort_by_def)
  with Cons sorted_insert_by[of le, OF total trans] show ?case by simp
qed

lemma compare_meta_le_iff:
  "(compare_meta collate a b \<le> 0) = spec_precedes collate a b"
proof (cases "m_exifDateMs a")
  case None
  note a = None
  show ?thesis
  proof (cases "m_exifDateMs b")
    case None
    with a show ?thesis
      by (simp add: compare_meta_def spec_precedes_def spec_tie_def) linarith
  next
    case (Some y)
    with a show ?thesis by (simp add: compare_meta_def spec_precedes_def)
  qed
next
  case (Some x)
  note a = Some
  show ?thesis
  proof (cases "m_exifDateMs b")
    case None
    with a show ?thesis by (simp add: compare_meta_def spec_precedes_def)
  next
    case (Some y)
    show ?thesis
    proof (cases "x = y")
      case True
      with a Some show ?thesis
        by (simp add: compare_meta_def spec_precedes_def spec_tie_def) linarith
    next
      case False
      with a Some show ?thesis
        by (simp add: compare_meta_def spec_precedes_def) linarith
    qed
  qed
qed

lemma spec_precedes_total:
  assumes "\<forall>a b. collate a b \<le> 0 \<or> collate b a \<le> 0"
  shows "spec_precedes collate a b \<or> spec_precedes collate b a"
proof -
  from assms have c: "collate (m_name a) (m_name b) \<le> 0 \<or> collate (m_name b) (m_name a) \<le> 0" by blast
  then have t: "spec_tie collate a b \<or> spec_tie collate b a"
    unfolding spec_tie_def by (cases "m_mtimeMs a < m_mtimeMs b"; cases "m_mtimeMs a = m_mtimeMs b") auto
  then show ?thesis
    by (cases "m_exifDateMs a"; cases "m_exifDateMs b") (auto simp: spec_precedes_def)
qed



lemma spec_tie_trans:
  assumes "\<forall>a b c. collate a b \<le> 0 \<and> collate b c \<le> 0 \<longrightarrow> collate a c \<le> 0"
    and "spec_tie collate a b" and "spec_tie collate b c"
  shows "spec_tie collate a c"
proof -
  from assms(1) have c: "collate (m_name a) (m_name b) \<le> 0 \<Longrightarrow> collate (m_name b) (m_name c) \<le> 0
      \<Longrightarrow> collate (m_name a) (m_name c) \<le> 0" by blast
  from assms(2) have ab: "m_mtimeMs a < m_mtimeMs b \<or> (m_mtimeMs a = m_mtimeMs b \<and> collate (m_name a) (m_name b) \<le> 0)"
    by (simp add: spec_tie_def)
  from assms(3) have bc: "m_mtimeMs b < m_mtimeMs c \<or> (m_mtimeMs b = m_mtimeMs c \<and> collate (m_name b) (m_name c) \<le> 0)"
    by (simp add: spec_tie_def)
  from ab bc c have "m_mtimeMs a < m_mtimeMs c \<or> (m_mtimeMs a = m_mtimeMs c \<and> collate (m_name a) (m_name c) \<le> 0)"
    by (elim disjE conjE) simp_all
  then show ?thesis by (simp add: spec_tie_def)
qed


lemma spec_precedes_trans:
  assumes "\<forall>a b c. collate a b \<le> 0 \<and> collate b c \<le> 0 \<longrightarrow> collate a c \<le> 0"
    and "spec_precedes collate a b" and "spec_precedes collate b c"
  shows "spec_precedes collate a c"
proof (cases "m_exifDateMs a")
  case None
  note a = None
  from assms(2) a have b: "m_exifDateMs b = None" and tab: "spec_tie collate a b"
    by (cases "m_exifDateMs b"; simp add: spec_precedes_def)+
  from assms(3) b have c: "m_exifDateMs c = None" and tbc: "spec_tie collate b c"
    by (cases "m_exifDateMs c"; simp add: spec_precedes_def)+
  from spec_tie_trans[OF assms(1) tab tbc] a c show ?thesis by (simp add: spec_precedes_def)
next
  case (Some x)
  note a = Some
  show ?thesis
  proof (cases "m_exifDateMs c")
    case None
    with a show ?thesis by (simp add: spec_precedes_def)
  next
    case (Some z)
    note c = Some
    from assms(3) c obtain y where b: "m_exifDateMs b = Some y"
      by (cases "m_exifDateMs b") (simp_all add: spec_precedes_def)
    from assms(2) a b have ab: "x < y \<or> (x = y \<and> spec_tie collate a b)"
      by (simp add: spec_precedes_def)
    from assms(3) b c have bc: "y < z \<or> (y = z \<and> spec_tie collate b c)"
      by (simp add: spec_precedes_def)
    from ab bc spec_tie_trans[OF assms(1), of a b c]
    have "x < z \<or> (x = z \<and> spec_tie collate a c)"
      by (elim disjE conjE) simp_all
    with a c show ?thesis by (simp add: spec_precedes_def)
  qed
qed

lemma read_meta_exif: "m_exifDateMs (read_meta fs exifr p) = capture_time fs exifr p"
  by (simp add: read_meta_def capture_time_def readFileSync_def split: option.splits node.splits)

lemma read_meta_mtime: "m_mtimeMs (read_meta fs exifr p) = modified_time fs p"
  by (simp add: read_meta_def modified_time_def statSync_mtimeMs_def split: option.splits node.splits)

lemma read_meta_name: "m_name (read_meta fs exifr p) = basename p"
  by (simp add: read_meta_def)

lemma read_meta_file: "m_file (read_meta fs exifr p) = p"
  by (simp add: read_meta_def)

lemma precedes_read_meta:
  "spec_precedes collate (read_meta fs exifr p) (read_meta fs exifr q) = spec_before fs exifr collate p q"
  by (simp only: spec_precedes_def spec_tie_def spec_before_def spec_later_tiers_def
      read_meta_exif read_meta_mtime read_meta_name)

lemma natural_compare_le: "(natural_compare a b \<le> 0) = (natural_key a \<le> natural_key b)"
  by (auto simp: natural_compare_def)

lemma natural_total: "natural_compare a b \<le> 0 \<or> natural_compare b a \<le> 0"
  unfolding natural_compare_le by (rule linear)

lemma natural_trans: "natural_compare a b \<le> 0 \<Longrightarrow> natural_compare b c \<le> 0 \<Longrightarrow> natural_compare a c \<le> 0"
  unfolding natural_compare_le by (rule order_trans)

lemma natural_case: "toLowerCase a = toLowerCase b \<Longrightarrow> natural_compare a b = 0"
  by (simp add: natural_compare_def natural_key_def)


lemma is_digit_digit_char: "d < 10 \<Longrightarrow> is_digit (digit_char d)"
proof -
  have "list_all (\<lambda>d. is_digit (digit_char d)) [0..<10]" by code_simp
  then show "d < 10 \<Longrightarrow> is_digit (digit_char d)" by (simp add: list_all_iff)
qed

lemma digit_val_digit_char: "d < 10 \<Longrightarrow> digit_val (digit_char d) = d"
proof -
  have "list_all (\<lambda>d. digit_val (digit_char d) = d) [0..<10]" by code_simp
  then show "d < 10 \<Longrightarrow> digit_val (digit_char d) = d" by (simp add: list_all_iff)
qed

lemma dec_digits: "list_all is_digit (dec n)"
proof (induction n rule: dec.induct)
  case (1 n)
  show ?case
  proof (cases "n < 10")
    case True
    then show ?thesis by (subst dec.simps) (simp add: is_digit_digit_char)
  next
    case False
    with 1 show ?thesis by (subst dec.simps) (simp add: is_digit_digit_char)
  qed
qed

lemma number_of_snoc: "number_of (ds @ [d]) = 10 * number_of ds + digit_val d"
  by (simp add: number_of_def)

lemma number_of_dec: "number_of (dec n) = n"
proof (induction n rule: dec.induct)
  case (1 n)
  show ?case
  proof (cases "n < 10")
    case True
    then show ?thesis by (subst dec.simps) (simp add: number_of_def digit_val_digit_char)
  next
    case False
    then have "dec n = dec (n div 10) @ [digit_char (n mod 10)]" by (subst dec.simps) simp
    with 1[OF False] show ?thesis by (simp add: number_of_snoc digit_val_digit_char)
  qed
qed

lemma lower_digit: "is_digit c \<Longrightarrow> lower_char c = c"
proof -
  have "list_all (\<lambda>c. lower_char c = c) ''0123456789''" by code_simp
  then show "is_digit c \<Longrightarrow> lower_char c = c" unfolding is_digit_def list_all_iff by blast
qed

lemma lower_letters_nondigit: "l \<in> set lower_letters \<Longrightarrow> \<not> is_digit l"
proof -
  have "list_all (\<lambda>l. \<not> is_digit l) lower_letters" by code_simp
  then show "l \<in> set lower_letters \<Longrightarrow> \<not> is_digit l" by (simp add: list_all_iff)
qed

lemma lower_nondigit: "\<not> is_digit c \<Longrightarrow> \<not> is_digit (lower_char c)"
proof (cases "map_of (zip upper_letters lower_letters) c")
  case None
  assume "\<not> is_digit c"
  with None show ?thesis by (simp add: lower_char_def)
next
  case (Some l)
  then have "(c, l) \<in> set (zip upper_letters lower_letters)" by (rule map_of_SomeD)
  then have "l \<in> set lower_letters" by (rule set_zip_rightD)
  then have "\<not> is_digit l" by (rule lower_letters_nondigit)
  with Some show ?thesis by (simp add: lower_char_def)
qed

lemma chunks_nondigit_prefix:
  "list_all (\<lambda>c. \<not> is_digit c) P \<Longrightarrow> chunks (P @ X) = map (\<lambda>c. (1, of_char c)) P @ chunks X"
  by (induction P) simp_all

lemma chunks_number:
  assumes "list_all is_digit D" and "D \<noteq> []" and "S = [] \<or> \<not> is_digit (hd S)"
  shows "chunks (D @ S) = (0, number_of D) # chunks S"
proof -
  from assms(2) obtain d ds where D: "D = d # ds" by (cases D) auto
  from assms(1) have all: "\<forall>x\<in>set D. is_digit x" by (simp add: list_all_iff)
  from assms(3) have t: "takeWhile is_digit S = []" by (cases S) auto
  from assms(3) have dr: "dropWhile is_digit S = S" by (cases S) auto
  have tw: "takeWhile is_digit (D @ S) = D" using all t by (simp add: takeWhile_append2)
  have dw: "dropWhile is_digit (ds @ S) = S" using all dr D by (simp add: dropWhile_append2)
  have "chunks (D @ S) = (0, number_of (takeWhile is_digit (D @ S))) # chunks (dropWhile is_digit (ds @ S))"
    using all D by simp
  then show ?thesis by (simp only: tw dw)
qed

lemma append_le_append: "(K @ xs \<le> K @ ys) = (xs \<le> (ys :: ('a::linorder) list))"
  by (induction K) simp_all

lemma natural_numeric:
  assumes "list_all (\<lambda>c. \<not> is_digit c) pre" and "suf = [] \<or> \<not> is_digit (hd suf)"
  shows "(natural_compare (pre @ dec m @ suf) (pre @ dec n @ suf) \<le> 0) = (m \<le> n)"
proof -
  let ?P = "toLowerCase pre" and ?S = "toLowerCase suf"
  have ld: "toLowerCase (dec k) = dec k" for k
    unfolding toLowerCase_def using dec_digits[of k] by (intro map_idI) (simp add: list_all_iff lower_digit)
  have P: "list_all (\<lambda>c. \<not> is_digit c) ?P"
    using assms(1) by (simp add: toLowerCase_def list_all_iff lower_nondigit)
  have S: "?S = [] \<or> \<not> is_digit (hd ?S)"
    using assms(2) by (cases suf) (simp_all add: toLowerCase_def lower_nondigit)
  have app: "toLowerCase (xs @ ys) = toLowerCase xs @ toLowerCase ys" for xs ys
    by (simp add: toLowerCase_def)
  have key: "natural_key (pre @ dec k @ suf) = map (\<lambda>c. (1, of_char c)) ?P @ (0, k) # chunks ?S" for k
  proof -
    have "natural_key (pre @ dec k @ suf) = chunks (?P @ dec k @ ?S)"
      by (simp only: natural_key_def app ld)
    also have "\<dots> = map (\<lambda>c. (1, of_char c)) ?P @ chunks (dec k @ ?S)"
      by (rule chunks_nondigit_prefix[OF P])
    also have "chunks (dec k @ ?S) = (0, number_of (dec k)) # chunks ?S"
      by (rule chunks_number[OF dec_digits dec_nonempty S])
    finally show ?thesis by (simp only: number_of_dec)
  qed
  have "(natural_compare (pre @ dec m @ suf) (pre @ dec n @ suf) \<le> 0) =
        ((0, m) # chunks ?S \<le> (0, n) # chunks ?S)"
    by (simp only: natural_compare_le key append_le_append)
  also have "\<dots> = (m \<le> n)" by auto
  finally show ?thesis .
qed


text \<open>
  C7. Let the collation be a total preorder that takes no account of letter case and
  compares a run of decimal digits by the number it denotes, as \<open>localeCompare\<close> with
  \<open>numeric: true\<close> and \<open>sensitivity: 'base'\<close> does. Then \<open>orderPhotos\<close> returns a
  permutation of the given paths that is sorted by the precedence of the specification
  on what the file system holds: capture time read from the file ascending, with every
  photo that has a capture time before every photo without one, then the file's
  modification time ascending, then the file name under the collation.
\<close>

theorem orderPhotos_sorted:
  assumes "\<forall>a b. collate a b \<le> 0 \<or> collate b a \<le> 0"
    and "\<forall>a b c. collate a b \<le> 0 \<and> collate b c \<le> 0 \<longrightarrow> collate a c \<le> 0"
    and "\<forall>a b. toLowerCase a = toLowerCase b \<longrightarrow> collate a b = 0"
    and "\<forall>pre suf m n. list_all (\<lambda>c. \<not> is_digit c) pre \<and> (suf = [] \<or> \<not> is_digit (hd suf)) \<and>
           length (dec m) \<le> 254 \<and> length (dec n) \<le> 254
           \<longrightarrow> (collate (pre @ dec m @ suf) (pre @ dec n @ suf) \<le> 0) = (m \<le> n)"
  shows "mset (orderPhotos fs exifr collate filePaths) = mset filePaths \<and>
         sorted_wrt (spec_before fs exifr collate) (orderPhotos fs exifr collate filePaths)"
proof -
  let ?le = "\<lambda>a b. compare_meta collate a b \<le> 0"
  let ?s = "sort_by ?le (map (read_meta fs exifr) filePaths)"
  have le: "?le = spec_precedes collate" by (intro ext) (rule compare_meta_le_iff)
  have 1: "orderPhotos fs exifr collate filePaths = map m_file ?s"
    by (simp add: orderPhotos_def)
  have 2: "mset ?s = mset (map (read_meta fs exifr) filePaths)" by (rule mset_sort_by)
  have "sorted_wrt (spec_precedes collate) (sort_by (spec_precedes collate) (map (read_meta fs exifr) filePaths))"
  proof (rule sorted_sort_by)
    show "spec_precedes collate a b \<or> spec_precedes collate b a" for a b
      by (rule spec_precedes_total[OF assms(1)])
    show "spec_precedes collate a b \<Longrightarrow> spec_precedes collate b c \<Longrightarrow> spec_precedes collate a c" for a b c
      by (rule spec_precedes_trans[OF assms(2)])
  qed
  then have 3: "sorted_wrt (spec_precedes collate) ?s" unfolding le .
  from 2 have "set ?s = set (map (read_meta fs exifr) filePaths)" by (rule mset_eq_setD)
  then have r: "m = read_meta fs exifr (m_file m)" if "m \<in> set ?s" for m
    using that by (auto simp: read_meta_file)
  have "sorted_wrt (\<lambda>a b. spec_before fs exifr collate (m_file a) (m_file b)) ?s"
  proof (rule sorted_wrt_mono_rel[OF _ 3])
    fix a b
    assume a: "a \<in> set ?s" and b: "b \<in> set ?s" and p: "spec_precedes collate a b"
    from p r[OF a] r[OF b]
    have "spec_precedes collate (read_meta fs exifr (m_file a)) (read_meta fs exifr (m_file b))"
      by simp
    then show "spec_before fs exifr collate (m_file a) (m_file b)"
      by (simp only: precedes_read_meta)
  qed
  then have 4: "sorted_wrt (spec_before fs exifr collate) (map m_file ?s)"
    by (simp only: sorted_wrt_map)
  have f: "map m_file (map (read_meta fs exifr) filePaths) = filePaths"
    by (induction filePaths) (simp_all add: read_meta_def)
  have "mset (map m_file ?s) = image_mset m_file (mset ?s)" by simp
  also have "\<dots> = image_mset m_file (mset (map (read_meta fs exifr) filePaths))"
    by (simp only: 2)
  also have "\<dots> = mset (map m_file (map (read_meta fs exifr) filePaths))"
    by (simp only: mset_map)
  finally have "mset (map m_file ?s) = mset filePaths" by (simp only: f)
  then have 5: "mset (orderPhotos fs exifr collate filePaths) = mset filePaths" by (simp only: 1)
  from 4 have 6: "sorted_wrt (spec_before fs exifr collate) (orderPhotos fs exifr collate filePaths)"
    by (simp only: 1)
  show ?thesis by (intro conjI 5 6)
qed

theorem orderPhotos_sorted_witness:
  "orderPhotos order_fs (Some example_exifr) natural_compare order_photos =
     [[''album'', ''e.jpg''], [''album'', ''b.jpg''], [''album'', ''a.jpg''], [''album'', ''d.jpg''],
      [''album'', ''c.jpg''], [''album'', ''img_2.jpg''], [''album'', ''IMG_10.jpg'']] \<and>
   mset (orderPhotos order_fs (Some example_exifr) natural_compare order_photos) = mset order_photos \<and>
   sorted_wrt (spec_before order_fs (Some example_exifr) natural_compare)
     (orderPhotos order_fs (Some example_exifr) natural_compare order_photos) \<and>
   map (capture_time order_fs (Some example_exifr)) order_photos
     = [Some 2000, None, None, Some 1000, None, None, Some 1000] \<and>
   map (modified_time order_fs) order_photos = [1, 8, 7, 9, 8, 3, 4] \<and>
   natural_compare ''img_2.jpg'' ''IMG_10.jpg'' = - 1 \<and>
   natural_compare ''IMG_2.JPG'' ''img_2.jpg'' = 0"
proof -
  have t: "\<forall>a b. natural_compare a b \<le> 0 \<or> natural_compare b a \<le> 0"
    by (intro allI natural_total)
  have r: "\<forall>a b c. natural_compare a b \<le> 0 \<and> natural_compare b c \<le> 0 \<longrightarrow> natural_compare a c \<le> 0"
    using natural_trans by blast
  have c: "\<forall>a b. toLowerCase a = toLowerCase b \<longrightarrow> natural_compare a b = 0"
    using natural_case by blast
  have n: "\<forall>pre suf m n. list_all (\<lambda>c. \<not> is_digit c) pre \<and> (suf = [] \<or> \<not> is_digit (hd suf)) \<and>
           length (dec m) \<le> 254 \<and> length (dec n) \<le> 254
           \<longrightarrow> (natural_compare (pre @ dec m @ suf) (pre @ dec n @ suf) \<le> 0) = (m \<le> n)"
    using natural_numeric by blast
  note s = orderPhotos_sorted[OF t r c n, of order_fs "Some example_exifr" order_photos]
  have e: "orderPhotos order_fs (Some example_exifr) natural_compare order_photos =
     [[''album'', ''e.jpg''], [''album'', ''b.jpg''], [''album'', ''a.jpg''], [''album'', ''d.jpg''],
      [''album'', ''c.jpg''], [''album'', ''img_2.jpg''], [''album'', ''IMG_10.jpg'']]"
    by code_simp
  have k1: "map (capture_time order_fs (Some example_exifr)) order_photos
     = [Some 2000, None, None, Some 1000, None, None, Some 1000]"
    by code_simp
  have k2: "map (modified_time order_fs) order_photos = [1, 8, 7, 9, 8, 3, 4]"
    by code_simp
  have k3: "natural_compare ''img_2.jpg'' ''IMG_10.jpg'' = - 1" by code_simp
  have k4: "natural_compare ''IMG_2.JPG'' ''img_2.jpg'' = 0" by code_simp
  show ?thesis by (intro conjI e s[THEN conjunct1] s[THEN conjunct2] k1 k2 k3 k4)
qed

section \<open>Duplicate pairs\<close>

lemma hexdigit_not_r: "d < 16 \<Longrightarrow> hexdigit d \<noteq> CHR ''r''"
proof
  assume d: "d < 16" and e: "hexdigit d = CHR ''r''"
  have "''0123456789abcdef'' ! d \<in> set ''0123456789abcdef''"
    by (rule nth_mem) (use d in simp)
  then have "CHR ''r'' \<in> set ''0123456789abcdef''"
    using e by (simp only: hexdigit_def)
  then show False by simp
qed

lemma startsWith_error_nth: "startsWith s ''error_'' \<Longrightarrow> s ! 1 = CHR ''r''"
proof -
  assume "startsWith s ''error_''"
  then have t: "take (length ''error_'') s = ''error_''" by (simp only: startsWith_def)
  have "take (length ''error_'') s ! 1 = s ! 1" by (rule nth_take) simp
  then have "s ! 1 = ''error_'' ! 1" by (simp only: t)
  then show ?thesis by simp
qed

lemma hex_not_fallback: "\<not> startsWith (hex bs) ''error_''"
proof (cases bs)
  case Nil
  then show ?thesis by (simp add: hex_def startsWith_def)
next
  case (Cons b rest)
  have r: "hexdigit (b mod 16) \<noteq> CHR ''r''" by (rule hexdigit_not_r) simp
  have "hex bs ! 1 = hexdigit (b mod 16)" using Cons by (simp add: hex_def hex_byte_def)
  with r startsWith_error_nth[of "hex bs"] show ?thesis by auto
qed

lemma startsWith_append: "startsWith (pre @ rest) pre"
  by (simp add: startsWith_def)

lemma fallback_iff:
  "startsWith (calculateFileHash md5 fs now photo) ''error_'' = (\<not> is_file (lookup fs photo))"
proof (cases "lookup fs photo")
  case None
  then show ?thesis using startsWith_append[of "''error_''"] by (simp add: calculateFileHash_def)
next
  case (Some n)
  show ?thesis
  proof (cases n)
    case Dir
    with Some show ?thesis using startsWith_append[of "''error_''"] by (simp add: calculateFileHash_def)
  next
    case (File c t)
    with Some show ?thesis by (simp add: calculateFileHash_def hex_not_fallback)
  qed
qed


lemma find_snoc:
  "find P (xs @ [y]) = (case find P xs of Some x \<Rightarrow> Some x | None \<Rightarrow> (if P y then Some y else None))"
  by (induction xs) auto

lemma note_photo_step:
  assumes "agree hashes earlier" and "fl = startsWith h ''error_''"
  shows "fst (note_photo h photo (dups, hashes)) =
           dups @ (case find (\<lambda>e. fst e = h) earlier of
                     Some first \<Rightarrow> (if fl then [] else [(snd (snd first), photo)])
                   | None \<Rightarrow> [])"
    and "agree (snd (note_photo h photo (dups, hashes))) (earlier @ [(h, fl, photo)])"
proof -
  show "fst (note_photo h photo (dups, hashes)) =
           dups @ (case find (\<lambda>e. fst e = h) earlier of
                     Some first \<Rightarrow> (if fl then [] else [(snd (snd first), photo)])
                   | None \<Rightarrow> [])"
  proof (cases fl)
    case True
    with assms(2) show ?thesis
      by (simp add: note_photo_def split: option.splits)
  next
    case False
    with assms have m: "map_of hashes h = map_option (\<lambda>e. snd (snd e)) (find (\<lambda>e. fst e = h) earlier)"
      by (auto simp: agree_def)
    with False assms(2) show ?thesis
      by (cases "find (\<lambda>e. fst e = h) earlier") (simp_all add: note_photo_def)
  qed
  show "agree (snd (note_photo h photo (dups, hashes))) (earlier @ [(h, fl, photo)])"
    unfolding agree_def
  proof (intro allI)
    fix h'
    show "startsWith h' ''error_'' \<or>
          map_of (snd (note_photo h photo (dups, hashes))) h' =
            map_option (\<lambda>e. snd (snd e)) (find (\<lambda>e. fst e = h') (earlier @ [(h, fl, photo)]))"
    proof (cases "startsWith h' ''error_''")
      case True
      then show ?thesis by simp
    next
      case False
      with assms(1) have a: "map_of hashes h' = map_option (\<lambda>e. snd (snd e)) (find (\<lambda>e. fst e = h') earlier)"
        by (auto simp: agree_def)
      show ?thesis
      proof (cases "h' = h")
        case True
        with False assms(2) have nf: "\<not> startsWith h ''error_''" by simp
        show ?thesis
        proof (cases "find (\<lambda>e. fst e = h) earlier")
          case None
          with a True nf show ?thesis
            by (simp add: note_photo_def find_snoc update_conv')
        next
          case (Some first)
          with a True nf show ?thesis
            by (simp add: note_photo_def find_snoc)
        qed
      next
        case neq: False
        have "map_of (snd (note_photo h photo (dups, hashes))) h' = map_of hashes h'"
          using neq by (simp add: note_photo_def update_conv' split: option.splits)
        moreover have "find (\<lambda>e. fst e = h') (earlier @ [(h, fl, photo)]) = find (\<lambda>e. fst e = h') earlier"
          using neq by (simp add: find_snoc split: option.splits)
        ultimately show ?thesis using a by simp
      qed
    qed
  qed
qed

lemma scan_photos_pairs:
  "agree (snd st) earlier \<Longrightarrow>
   fst (scan_photos md5 fs clock_at i photoList st) =
     fst st @ spec_pairs earlier (fingerprints md5 fs clock_at i photoList)"
proof (induction photoList arbitrary: i st earlier)
  case Nil
  then show ?case by simp
next
  case (Cons photo rest)
  let ?h = "calculateFileHash md5 fs (clock_at i) photo"
  let ?fl = "\<not> is_file (lookup fs photo)"
  obtain dups hashes where st: "st = (dups, hashes)" by (cases st)
  have fl: "?fl = startsWith ?h ''error_''" by (simp add: fallback_iff)
  from Cons.prems st have ag: "agree hashes earlier" by simp
  note step = note_photo_step[OF ag fl, of photo dups]
  from Cons.IH[OF step(2), of "Suc i"] step(1) st show ?case
    by (simp split: option.splits)
qed

text \<open>
  C8. \<open>initialize\<close> records as duplicates exactly the pairs of the specification: in
  scan order, each photo whose fingerprint is not the fallback of a failed read and was
  produced by an earlier photo, paired with the first photo that produced it.
\<close>

theorem initialize_duplicates:
  "st_duplicates (sm_stats (fst (initialize md5 clock_at clk sm fs photoList categorizationHistory))) =
     spec_pairs [] (fingerprints md5 fs clock_at 0 photoList) \<and>
   (\<forall>now photo. startsWith (calculateFileHash md5 fs now photo) ''error_'' = (\<not> is_file (lookup fs photo)))"
proof -
  have "agree (snd ([], [])) []" by (simp add: agree_def)
  from scan_photos_pairs[OF this, of md5 fs clock_at 0 photoList]
  have "st_duplicates (sm_stats (fst (initialize md5 clock_at clk sm fs photoList categorizationHistory))) =
     spec_pairs [] (fingerprints md5 fs clock_at 0 photoList)"
    by (simp add: initialize_def Let_def)
  then show ?thesis by (simp add: fallback_iff)
qed

section \<open>The pending write at export and revert\<close>





























end
